theory Spec2Isabelle
  imports Complex_Main "HOL-Library.Multiset"
begin

section \<open>JavaScript values used by the pipeline\<close>

text \<open>
  The program of \<^verbatim>\<open>src/Optimization/task_v2.js\<close> works on arrays of primitive
  values: the cells of a parsed CSV file are strings, a schema cast such as \<^verbatim>\<open>Number\<close>
  turns some of them into numbers, and a read outside an array gives \<^verbatim>\<open>undefined\<close>.

  A number is \<^verbatim>\<open>NaN\<close>, one of the two infinities, or finite. Finite numbers are taken
  as exact rationals: the conversion of a string, the product, the quotient and
  \<^verbatim>\<open>Math.round\<close> give the exact result, without the rounding to the nearest double,
  the overflow to an infinity or the negative zero of the language. The comparisons the
  program makes (the sign of a difference, \<^verbatim>\<open>Math.max\<close>) are exact on doubles as well,
  so numbers are ordered here as the program orders them.
\<close>

datatype jsnum = NaN | PInf | NInf | Fin rat

datatype jsval = Undefined | Null | Bool bool | Num jsnum | Str string

subsection \<open>Arithmetic\<close>

fun js_neg :: "jsnum \<Rightarrow> jsnum" where
  "js_neg NaN = NaN"
| "js_neg PInf = NInf"
| "js_neg NInf = PInf"
| "js_neg (Fin a) = Fin (- a)"

text \<open>\<^verbatim>\<open>a - b\<close> on numbers.\<close>

fun js_sub :: "jsnum \<Rightarrow> jsnum \<Rightarrow> jsnum" where
  "js_sub NaN b = NaN"
| "js_sub a NaN = NaN"
| "js_sub PInf PInf = NaN"
| "js_sub PInf b = PInf"
| "js_sub NInf NInf = NaN"
| "js_sub NInf b = NInf"
| "js_sub (Fin a) PInf = NInf"
| "js_sub (Fin a) NInf = PInf"
| "js_sub (Fin a) (Fin b) = Fin (a - b)"

text \<open>An infinity of the sign of \<open>a\<close> (for \<open>a \<noteq> 0\<close>).\<close>

definition inf_of_sign :: "rat \<Rightarrow> jsnum" where
  "inf_of_sign a = (if 0 < a then PInf else NInf)"

text \<open>\<^verbatim>\<open>a * b\<close> on numbers: an infinity times zero is \<^verbatim>\<open>NaN\<close>.\<close>

fun js_mul :: "jsnum \<Rightarrow> jsnum \<Rightarrow> jsnum" where
  "js_mul NaN b = NaN"
| "js_mul a NaN = NaN"
| "js_mul PInf PInf = PInf"
| "js_mul PInf NInf = NInf"
| "js_mul NInf PInf = NInf"
| "js_mul NInf NInf = PInf"
| "js_mul PInf (Fin b) = (if b = 0 then NaN else inf_of_sign b)"
| "js_mul NInf (Fin b) = (if b = 0 then NaN else inf_of_sign (- b))"
| "js_mul (Fin a) PInf = (if a = 0 then NaN else inf_of_sign a)"
| "js_mul (Fin a) NInf = (if a = 0 then NaN else inf_of_sign (- a))"
| "js_mul (Fin a) (Fin b) = Fin (a * b)"

text \<open>
  \<^verbatim>\<open>a / b\<close> on numbers: zero by zero and infinity by infinity are \<^verbatim>\<open>NaN\<close>, a
  non-zero number by zero is an infinity (the zero of the model is the positive one).
\<close>

fun js_div :: "jsnum \<Rightarrow> jsnum \<Rightarrow> jsnum" where
  "js_div NaN b = NaN"
| "js_div a NaN = NaN"
| "js_div PInf (Fin b) = (if 0 \<le> b then PInf else NInf)"
| "js_div NInf (Fin b) = (if 0 \<le> b then NInf else PInf)"
| "js_div PInf b = NaN"
| "js_div NInf b = NaN"
| "js_div (Fin a) PInf = Fin 0"
| "js_div (Fin a) NInf = Fin 0"
| "js_div (Fin a) (Fin b) =
     (if b = 0 then (if a = 0 then NaN else inf_of_sign a) else Fin (a / b))"

text \<open>
  \<^verbatim>\<open>Math.round\<close>: the nearest integer, a half going up (towards \<open>+\<infinity>\<close>), which is
  \<open>\<lfloor>x + 1/2\<rfloor>\<close>.
\<close>

fun Math_round :: "jsnum \<Rightarrow> jsnum" where
  "Math_round (Fin a) = Fin (of_int \<lfloor>a + 1 / 2\<rfloor>)"
| "Math_round x = x"

subsection \<open>Comparison\<close>

text \<open>\<^verbatim>\<open>a < b\<close> and \<^verbatim>\<open>a <= b\<close> on numbers: false as soon as one side is \<^verbatim>\<open>NaN\<close>.\<close>

fun js_lt :: "jsnum \<Rightarrow> jsnum \<Rightarrow> bool" where
  "js_lt NaN b = False"
| "js_lt a NaN = False"
| "js_lt PInf b = False"
| "js_lt a NInf = False"
| "js_lt NInf b = True"
| "js_lt (Fin a) PInf = True"
| "js_lt (Fin a) (Fin b) = (a < b)"

definition js_le :: "jsnum \<Rightarrow> jsnum \<Rightarrow> bool" where
  "js_le a b = (a \<noteq> NaN \<and> b \<noteq> NaN \<and> (js_lt a b \<or> a = b))"

text \<open>
  \<^verbatim>\<open>Math.max(...xs)\<close>: starts from \<open>-\<infinity>\<close>; \<^verbatim>\<open>NaN\<close> among the arguments makes
  the result \<^verbatim>\<open>NaN\<close>.
\<close>

fun js_max2 :: "jsnum \<Rightarrow> jsnum \<Rightarrow> jsnum" where
  "js_max2 NaN b = NaN"
| "js_max2 a NaN = NaN"
| "js_max2 a b = (if js_lt a b then b else a)"

definition Math_max :: "jsnum list \<Rightarrow> jsnum" where
  "Math_max xs = foldl js_max2 NInf xs"

subsection \<open>Conversion of a string to a number\<close>

text \<open>
  \<^verbatim>\<open>Number(s)\<close> on a string follows the grammar of ECMAScript's
  \<^verbatim>\<open>StringNumericLiteral\<close>: white space around the literal is dropped, the empty
  string is \<open>0\<close>, a literal is a signed decimal (digits, an optional fraction, an
  optional exponent, or \<^verbatim>\<open>Infinity\<close>) or an unsigned binary, octal or hexadecimal
  integer, and anything else is \<^verbatim>\<open>NaN\<close>. White space is the ASCII white space
  (the strings of the model are byte strings).
\<close>

definition is_ws :: "char \<Rightarrow> bool" where
  "is_ws c = (c \<in> set [CHR '' '', CHR 0x09, CHR 0x0A, CHR 0x0B, CHR 0x0C, CHR 0x0D])"

definition js_trim :: "string \<Rightarrow> string" where
  "js_trim s = rev (dropWhile is_ws (rev (dropWhile is_ws s)))"

text \<open>The value of a digit in bases up to sixteen.\<close>

definition digit_val :: "char \<Rightarrow> nat option" where
  "digit_val c =
     (let n = (of_char c :: nat) in
      if 48 \<le> n \<and> n \<le> 57 then Some (n - 48)
      else if 97 \<le> n \<and> n \<le> 102 then Some (n - 87)
      else if 65 \<le> n \<and> n \<le> 70 then Some (n - 55)
      else None)"

definition is_digit_in :: "nat \<Rightarrow> char \<Rightarrow> bool" where
  "is_digit_in base c = (case digit_val c of None \<Rightarrow> False | Some d \<Rightarrow> d < base)"

definition digits_val :: "nat \<Rightarrow> string \<Rightarrow> nat" where
  "digits_val base s = foldl (\<lambda>acc c. acc * base + (case digit_val c of None \<Rightarrow> 0 | Some d \<Rightarrow> d)) 0 s"

text \<open>A non-empty run of digits of the base, and nothing else.\<close>

definition all_digits :: "nat \<Rightarrow> string \<Rightarrow> bool" where
  "all_digits base s = (s \<noteq> [] \<and> list_all (is_digit_in base) s)"

text \<open>The exponent part: empty, or \<^verbatim>\<open>e\<close>/\<^verbatim>\<open>E\<close>, an optional sign and digits.\<close>

definition exponent_part :: "string \<Rightarrow> int option" where
  "exponent_part s =
     (case s of
        [] \<Rightarrow> Some 0
      | c # t \<Rightarrow>
          if c = CHR ''e'' \<or> c = CHR ''E'' then
            (case t of
               [] \<Rightarrow> None
             | d # u \<Rightarrow>
                 if d = CHR ''+'' then
                   (if all_digits 10 u then Some (int (digits_val 10 u)) else None)
                 else if d = CHR ''-'' then
                   (if all_digits 10 u then Some (- int (digits_val 10 u)) else None)
                 else
                   (if all_digits 10 t then Some (int (digits_val 10 t)) else None))
          else None)"

definition scale10 :: "nat \<Rightarrow> int \<Rightarrow> rat" where
  "scale10 m e = (if 0 \<le> e then of_nat m * 10 ^ nat e else of_nat m / 10 ^ nat (- e))"

text \<open>\<^verbatim>\<open>StrUnsignedDecimalLiteral\<close>.\<close>

definition unsigned_decimal :: "string \<Rightarrow> jsnum" where
  "unsigned_decimal s =
     (if s = ''Infinity'' then PInf
      else
        let ip = takeWhile (is_digit_in 10) s;
            r1 = dropWhile (is_digit_in 10) s;
            fp = (case r1 of [] \<Rightarrow> [] | c # t \<Rightarrow>
                    if c = CHR ''.'' then takeWhile (is_digit_in 10) t else []);
            r2 = (case r1 of [] \<Rightarrow> [] | c # t \<Rightarrow>
                    if c = CHR ''.'' then dropWhile (is_digit_in 10) t else r1)
        in if ip = [] \<and> fp = [] then NaN
           else (case exponent_part r2 of
                   None \<Rightarrow> NaN
                 | Some e \<Rightarrow> Fin (scale10 (digits_val 10 (ip @ fp)) (e - int (length fp)))))"

text \<open>\<^verbatim>\<open>NonDecimalIntegerLiteral\<close>: \<^verbatim>\<open>0b\<close>, \<^verbatim>\<open>0o\<close> or \<^verbatim>\<open>0x\<close> (either case) and digits.\<close>

definition radix_prefix :: "string \<Rightarrow> nat option" where
  "radix_prefix s =
     (case s of
        a # b # t \<Rightarrow>
          if a = CHR ''0'' then
            (if b = CHR ''b'' \<or> b = CHR ''B'' then Some 2
             else if b = CHR ''o'' \<or> b = CHR ''O'' then Some 8
             else if b = CHR ''x'' \<or> b = CHR ''X'' then Some 16
             else None)
          else None
      | _ \<Rightarrow> None)"

definition StringToNumber :: "string \<Rightarrow> jsnum" where
  "StringToNumber s =
     (let t = js_trim s in
      if t = [] then Fin 0
      else (case radix_prefix t of
              Some base \<Rightarrow>
                (if all_digits base (drop 2 t) then Fin (of_nat (digits_val base (drop 2 t)))
                 else NaN)
            | None \<Rightarrow>
                (case t of
                   [] \<Rightarrow> Fin 0
                 | c # u \<Rightarrow>
                     if c = CHR ''+'' then unsigned_decimal u
                     else if c = CHR ''-'' then js_neg (unsigned_decimal u)
                     else unsigned_decimal t)))"

text \<open>\<^verbatim>\<open>Number(v)\<close>, which is also the coercion the operators \<^verbatim>\<open>*\<close> and \<^verbatim>\<open>-\<close> apply.\<close>

fun ToNumber :: "jsval \<Rightarrow> jsnum" where
  "ToNumber Undefined = NaN"
| "ToNumber Null = Fin 0"
| "ToNumber (Bool b) = (if b then Fin 1 else Fin 0)"
| "ToNumber (Num n) = n"
| "ToNumber (Str s) = StringToNumber s"

text \<open>The cast \<^verbatim>\<open>Number\<close> of a schema: a function from a value to a value.\<close>

definition Number_cast :: "jsval \<Rightarrow> jsval" where
  "Number_cast v = Num (ToNumber v)"

section \<open>Arrays\<close>

text \<open>
  An array is a list. \<^verbatim>\<open>xs.indexOf(x)\<close> is the first index of \<open>x\<close>, or \<open>-1\<close>;
  \<^verbatim>\<open>row[i]\<close> is \<^verbatim>\<open>undefined\<close> when \<open>i\<close> is \<open>-1\<close> or beyond the end.
\<close>

fun indexOf :: "'a list \<Rightarrow> 'a \<Rightarrow> int" where
  "indexOf [] x = - 1"
| "indexOf (y # ys) x =
     (if y = x then 0 else (let i = indexOf ys x in if i < 0 then - 1 else i + 1))"

definition cell_at :: "jsval list \<Rightarrow> int \<Rightarrow> jsval" where
  "cell_at row i = (if 0 \<le> i \<and> nat i < length row then row ! nat i else Undefined)"

text \<open>
  \<^verbatim>\<open>s.split(sep)\<close>: the pieces of \<open>s\<close> between the occurrences of \<open>sep\<close>, found from
  the left; with the empty separator, the characters of \<open>s\<close>.
\<close>

function split_at :: "string \<Rightarrow> string \<Rightarrow> string \<Rightarrow> string list" where
  "split_at sep acc [] = [rev acc]"
| "split_at sep acc (c # cs) =
     (if sep \<noteq> [] \<and> take (length sep) (c # cs) = sep
      then rev acc # split_at sep [] (drop (length sep) (c # cs))
      else split_at sep (c # acc) cs)"
  by pat_completeness auto
termination
  by (relation "measure (\<lambda>(sep, acc, s). length s)") auto

definition js_split :: "string \<Rightarrow> string \<Rightarrow> string list" where
  "js_split s sep = (if sep = [] then map (\<lambda>c. [c]) s else split_at sep [] s)"

text \<open>
  \<^verbatim>\<open>xs.sort(compare)\<close>. The comparator returns a number; \<^verbatim>\<open>NaN\<close> counts as zero,
  a positive result puts the first argument after the second. The sort is stable
  (ECMAScript 2019), so with a consistent comparator the result is determined, and it is
  the one of this insertion sort. With an inconsistent comparator the language leaves
  the order to the implementation, and the model is one such order.
\<close>

fun is_positive :: "jsnum \<Rightarrow> bool" where
  "is_positive PInf = True"
| "is_positive (Fin a) = (0 < a)"
| "is_positive x = False"

fun sort_insert :: "('a \<Rightarrow> 'a \<Rightarrow> jsnum) \<Rightarrow> 'a \<Rightarrow> 'a list \<Rightarrow> 'a list" where
  "sort_insert compare x [] = [x]"
| "sort_insert compare x (y # ys) =
     (if is_positive (compare x y) then y # sort_insert compare x ys else x # y # ys)"

definition Array_sort :: "('a \<Rightarrow> 'a \<Rightarrow> jsnum) \<Rightarrow> 'a list \<Rightarrow> 'a list" where
  "Array_sort compare xs = foldr (sort_insert compare) xs []"

section \<open>ParserCsv\<close>

text \<open>
  The private fields \<^verbatim>\<open>#columns\<close>, \<^verbatim>\<open>#lines\<close> and \<^verbatim>\<open>#cellSep\<close>. The constructor
  splits the text into lines and the first line into column names. It reads
  \<^verbatim>\<open>headerLine.split\<close>, which throws a \<^verbatim>\<open>TypeError\<close> when the split of the text gave
  no line at all (the empty text with the empty line separator).
\<close>

datatype error = Error string | TypeError string

record parserCsv =
  pc_columns :: "string list"
  pc_lines :: "string list"
  pc_cellSep :: string

definition new_ParserCsv :: "string \<Rightarrow> string \<Rightarrow> string \<Rightarrow> error + parserCsv" where
  "new_ParserCsv csv lineSep cellSep =
     (case js_split csv lineSep of
        [] \<Rightarrow> Inl (TypeError ''headerLine is undefined'')
      | headerLine # lines \<Rightarrow>
          Inr \<lparr>pc_columns = js_split headerLine cellSep, pc_lines = lines,
               pc_cellSep = cellSep\<rparr>)"

text \<open>
  A schema is read as \<^verbatim>\<open>types[column]\<close>, and it is this lookup that the map stands
  for: it takes a property name to the cast the lookup finds, among the properties of
  the object and the ones it inherits, and is \<open>None\<close> where the lookup finds nothing
  or a falsy value. A cell beyond the header has the column \<^verbatim>\<open>undefined\<close>, which as a
  property name is the string \<^verbatim>\<open>"undefined"\<close>. What the lookup finds is a pure function
  on values that returns.
\<close>

type_synonym schema = "string \<rightharpoonup> (jsval \<Rightarrow> jsval)"

type_synonym cell_transformer = "jsval \<Rightarrow> string option \<Rightarrow> jsval"

type_synonym row_transformer = "jsval list \<Rightarrow> string list \<Rightarrow> jsval list"

definition property_key :: "string option \<Rightarrow> string" where
  "property_key column = (case column of None \<Rightarrow> ''undefined'' | Some c \<Rightarrow> c)"

definition cellWithTypes :: "schema \<Rightarrow> cell_transformer" where
  "cellWithTypes types = (\<lambda>value column.
     (case types (property_key column) of
        Some cast \<Rightarrow> cast value
      | None \<Rightarrow> value))"

definition pc_getColumns :: "parserCsv \<Rightarrow> string list" where
  "pc_getColumns p = pc_columns p"

text \<open>\<^verbatim>\<open>this.#columns[index]\<close>.\<close>

definition column_at :: "string list \<Rightarrow> nat \<Rightarrow> string option" where
  "column_at cols index = (if index < length cols then Some (cols ! index) else None)"

definition toDatasetArray ::
  "parserCsv \<Rightarrow> cell_transformer list \<Rightarrow> row_transformer list \<Rightarrow> jsval list list" where
  "toDatasetArray p cellTransformers rowTransformers =
     (let cellPipeline = [] @ cellTransformers;
          rowPipeline = [] @ rowTransformers
      in map (\<lambda>rawLine.
           let values = map (\<lambda>(index, value).
                 foldl (\<lambda>result strategy. strategy result (column_at (pc_columns p) index))
                   (Str value) cellPipeline)
               (enumerate 0 (js_split rawLine (pc_cellSep p)))
           in foldl (\<lambda>result strategy. strategy result (pc_columns p)) values rowPipeline)
         (pc_lines p))"

section \<open>TableData\<close>

text \<open>
  The private fields \<^verbatim>\<open>#columns\<close> and \<^verbatim>\<open>#rows\<close>. In this section arrays are values, so
  the copies the constructor and the getters make (\<^verbatim>\<open>[...columns]\<close>,
  \<^verbatim>\<open>rows.map(row => [...row])\<close>) are the lists themselves; the section on the store below
  has the same operations on arrays with an identity.
\<close>

record tableData =
  td_columns :: "string list"
  td_rows :: "jsval list list"

definition new_TableData :: "string list \<Rightarrow> jsval list list \<Rightarrow> tableData" where
  "new_TableData columns rows = \<lparr>td_columns = columns, td_rows = map (\<lambda>row. row) rows\<rparr>"

definition td_indexOf :: "tableData \<Rightarrow> string \<Rightarrow> int" where
  "td_indexOf t column = indexOf (td_columns t) column"

definition maxBy :: "tableData \<Rightarrow> string \<Rightarrow> jsnum" where
  "maxBy t column =
     (let index = td_indexOf t column
      in Math_max (map (\<lambda>row. ToNumber (cell_at row index)) (td_rows t)))"

type_synonym compute_fn = "jsval list \<Rightarrow> string list \<Rightarrow> jsval list list \<Rightarrow> jsval"

definition addColumn :: "tableData \<Rightarrow> string \<Rightarrow> compute_fn \<Rightarrow> tableData" where
  "addColumn t name compute =
     (let columns = td_columns t @ [name];
          rows = map (\<lambda>row. row @ [compute row (td_columns t) (td_rows t)]) (td_rows t)
      in new_TableData columns rows)"

text \<open>The order is \<open>None\<close> when the caller leaves it out: the default is \<^verbatim>\<open>'desc'\<close>.\<close>

definition sortBy :: "tableData \<Rightarrow> string \<Rightarrow> string option \<Rightarrow> tableData" where
  "sortBy t column order_arg =
     (let order = (case order_arg of None \<Rightarrow> ''desc'' | Some s \<Rightarrow> s);
          colIndex = td_indexOf t column;
          compare = (if order = ''desc''
            then (\<lambda>a b. js_sub (ToNumber (cell_at b colIndex)) (ToNumber (cell_at a colIndex)))
            else (\<lambda>a b. js_sub (ToNumber (cell_at a colIndex)) (ToNumber (cell_at b colIndex))));
          rows = Array_sort compare (td_rows t)
      in new_TableData (td_columns t) rows)"

definition getColumns :: "tableData \<Rightarrow> string list" where
  "getColumns t = td_columns t"

definition getRows :: "tableData \<Rightarrow> jsval list list" where
  "getRows t = map (\<lambda>row. row) (td_rows t)"

section \<open>RendererTable\<close>

text \<open>
  \<^verbatim>\<open>String(cell)\<close>. An integer below \<open>10\<^sup>2\<^sup>1\<close> in magnitude prints as its decimal digits.
  The text of any other finite number depends on its double, which the rationals do not
  have: it is the parameter \<open>other\<close>.
\<close>

function dec_digits :: "nat \<Rightarrow> string" where
  "dec_digits n =
     (if n < 10 then [char_of (48 + n)] else dec_digits (n div 10) @ [char_of (48 + n mod 10)])"
  by pat_completeness auto
termination
  by (relation "measure (\<lambda>n. n)") auto

definition Number_toString :: "(rat \<Rightarrow> string) \<Rightarrow> jsnum \<Rightarrow> string" where
  "Number_toString other x =
     (case x of
        NaN \<Rightarrow> ''NaN''
      | PInf \<Rightarrow> ''Infinity''
      | NInf \<Rightarrow> ''-Infinity''
      | Fin q \<Rightarrow>
          if q = of_int \<lfloor>q\<rfloor> \<and> \<bar>q\<bar> < 10 ^ 21
          then (if q < 0 then ''-'' else []) @ dec_digits (nat \<bar>\<lfloor>q\<rfloor>\<bar>)
          else other q)"

fun js_String :: "(rat \<Rightarrow> string) \<Rightarrow> jsval \<Rightarrow> string" where
  "js_String other Undefined = ''undefined''"
| "js_String other Null = ''null''"
| "js_String other (Bool b) = (if b then ''true'' else ''false'')"
| "js_String other (Num x) = Number_toString other x"
| "js_String other (Str s) = s"

text \<open>
  \<^verbatim>\<open>padEnd\<close> and \<^verbatim>\<open>padStart\<close> with spaces; the width \<^verbatim>\<open>undefined\<close> (\<open>None\<close>) pads
  nothing. Widths are natural numbers.
\<close>

definition padEnd :: "string \<Rightarrow> nat option \<Rightarrow> string" where
  "padEnd s w =
     (case w of None \<Rightarrow> s | Some n \<Rightarrow> s @ replicate (n - length s) (CHR '' ''))"

definition padStart :: "string \<Rightarrow> nat option \<Rightarrow> string" where
  "padStart s w =
     (case w of None \<Rightarrow> s | Some n \<Rightarrow> replicate (n - length s) (CHR '' '') @ s)"

record column_spec =
  cs_width :: "nat option"
  cs_align :: "string option"

text \<open>
  The options of the constructor: the column specifications (\<^verbatim>\<open>[]\<close> by default). The
  sink \<^verbatim>\<open>output\<close> is called once per row; what a renderer gives back here is the list of
  the lines it passed to the sink, in order.
\<close>

record format_options =
  fo_columns :: "column_spec list"

record rendererTable =
  rt_columns :: "column_spec list"

definition new_RendererTable :: "format_options \<Rightarrow> rendererTable" where
  "new_RendererTable opts = \<lparr>rt_columns = fo_columns opts\<rparr>"

definition formatCell :: "(rat \<Rightarrow> string) \<Rightarrow> rendererTable \<Rightarrow> jsval \<Rightarrow> nat \<Rightarrow> string" where
  "formatCell other r cell index =
     (let spec = (if index < length (rt_columns r) then rt_columns r ! index
                  else \<lparr>cs_width = None, cs_align = None\<rparr>);
          w = cs_width spec;
          al = (case cs_align spec of None \<Rightarrow> ''right'' | Some a \<Rightarrow> a)
      in if al = ''left''
         then padEnd (js_String other cell) w
         else padStart (js_String other cell) w)"

definition formatRow :: "(rat \<Rightarrow> string) \<Rightarrow> rendererTable \<Rightarrow> jsval list \<Rightarrow> string" where
  "formatRow other r row =
     concat (map (\<lambda>(i, cell). formatCell other r cell i) (enumerate 0 row))"

definition render :: "(rat \<Rightarrow> string) \<Rightarrow> rendererTable \<Rightarrow> jsval list list \<Rightarrow> string list" where
  "render other r rows = map (\<lambda>row. formatRow other r row) rows"

section \<open>App\<close>

text \<open>
  The registries map a format name to a class. A parser class takes the text and gives
  an object with \<^verbatim>\<open>getColumns\<close> and \<^verbatim>\<open>toDatasetArray\<close> (or throws); a renderer class
  takes the format options and gives \<^verbatim>\<open>render\<close>. A registry lookup that finds nothing,
  or something falsy, is \<open>None\<close>.
\<close>

record parser_object =
  po_getColumns :: "string list"
  po_toDatasetArray :: "cell_transformer list \<Rightarrow> jsval list list"

type_synonym parser_class = "string \<Rightarrow> error + parser_object"

type_synonym renderer_class = "format_options \<Rightarrow> jsval list list \<Rightarrow> string list"

text \<open>The two classes of the program, as \<^verbatim>\<open>App.run\<close> constructs them.\<close>

definition ParserCsv :: parser_class where
  "ParserCsv csv =
     (case new_ParserCsv csv [CHR 0x0A] '','' of
        Inl e \<Rightarrow> Inl e
      | Inr p \<Rightarrow>
          Inr \<lparr>po_getColumns = pc_getColumns p,
               po_toDatasetArray = (\<lambda>cellTransformers. toDatasetArray p cellTransformers [])\<rparr>)"

definition RendererTable :: "(rat \<Rightarrow> string) \<Rightarrow> renderer_class" where
  "RendererTable other opts = render other (new_RendererTable opts)"

record app =
  a_data :: string
  a_inputFormat :: string
  a_outputFormat :: string
  a_parsers :: "string \<rightharpoonup> parser_class"
  a_renderers :: "string \<rightharpoonup> renderer_class"
  a_dataSchema :: schema
  a_formatOptions :: format_options

text \<open>The function \<^verbatim>\<open>App.run\<close> passes to \<^verbatim>\<open>addColumn\<close>.\<close>

definition percent_compute :: "jsnum \<Rightarrow> compute_fn" where
  "percent_compute maxDensity = (\<lambda>row columns allRows.
     (let index = indexOf columns ''density''
      in Num (Math_round (js_div (js_mul (ToNumber (cell_at row index)) (Fin 100)) maxDensity))))"

text \<open>
  \<^verbatim>\<open>run\<close> gives the lines sent to the sink and how it ended: \<open>Inl\<close> the error thrown,
  \<open>Inr ()\<close> a normal return.
\<close>

definition run :: "app \<Rightarrow> string list \<times> (error + unit)" where
  "run a =
     (case a_parsers a (a_inputFormat a) of
        None \<Rightarrow>
          ([], Inl (Error (''No parser registered for input format: '' @ [CHR 0x22]
                            @ a_inputFormat a @ [CHR 0x22])))
      | Some Parser \<Rightarrow>
     (case a_renderers a (a_outputFormat a) of
        None \<Rightarrow>
          ([], Inl (Error (''No renderer registered for output format: '' @ [CHR 0x22]
                            @ a_outputFormat a @ [CHR 0x22])))
      | Some Renderer \<Rightarrow>
     (case Parser (a_data a) of
        Inl e \<Rightarrow> ([], Inl e)
      | Inr parser \<Rightarrow>
          let renderer = Renderer (a_formatOptions a);
              columns = po_getColumns parser;
              rows = po_toDatasetArray parser [cellWithTypes (a_dataSchema a)];
              table = new_TableData columns rows;
              maxDensity = maxBy table ''density'';
              result = sortBy (addColumn table ''percent'' (percent_compute maxDensity))
                         ''percent'' None
          in (renderer (getRows result), Inr ()))))"

section \<open>Chains of operations, the invariant and the scenario\<close>

text \<open>
  A chain of table operations, as in \<^verbatim>\<open>table.addColumn(...).sortBy(...)\<close>: each
  operation is applied to the table the one before it returned.
\<close>

datatype table_op = AddColumn string compute_fn | SortBy string "string option"

fun apply_op :: "tableData \<Rightarrow> table_op \<Rightarrow> tableData" where
  "apply_op t (AddColumn name compute) = addColumn t name compute"
| "apply_op t (SortBy column order_arg) = sortBy t column order_arg"

definition apply_ops :: "tableData \<Rightarrow> table_op list \<Rightarrow> tableData" where
  "apply_ops t ops = foldl apply_op t ops"

fun adds_column :: "table_op \<Rightarrow> bool" where
  "adds_column (AddColumn name compute) = True"
| "adds_column (SortBy column order_arg) = False"

text \<open>The row-length invariant: every row has one cell per column.\<close>

definition rows_match_columns :: "tableData \<Rightarrow> bool" where
  "rows_match_columns t = list_all (\<lambda>row. length row = length (getColumns t)) (getRows t)"

text \<open>The table of the scenario in the specification: three cities and their densities.\<close>

definition scenario_table :: tableData where
  "scenario_table = new_TableData [''city'', ''density'']
     [[Str ''A'', Num (Fin 100)], [Str ''B'', Num (Fin 400)], [Str ''C'', Num (Fin 200)]]"

text \<open>
  The same scenario as a run of the program: the table as CSV text, the schema casting
  the densities to numbers, and the two classes of the program in the registries.
\<close>

definition scenario_csv :: string where
  "scenario_csv = ''city,density\<newline>A,100\<newline>B,400\<newline>C,200''"

definition scenario_app :: app where
  "scenario_app =
     \<lparr>a_data = scenario_csv, a_inputFormat = ''csv'', a_outputFormat = ''table'',
      a_parsers = [''csv'' \<mapsto> ParserCsv],
      a_renderers = [''table'' \<mapsto> RendererTable (\<lambda>q. ''?'')],
      a_dataSchema = [''density'' \<mapsto> Number_cast],
      a_formatOptions = \<lparr>fo_columns =
        [\<lparr>cs_width = Some 4, cs_align = Some ''left''\<rparr>,
         \<lparr>cs_width = Some 5, cs_align = None\<rparr>,
         \<lparr>cs_width = Some 5, cs_align = None\<rparr>]\<rparr>\<rparr>"

definition scenario_parser :: parser_object where
  "scenario_parser =
     (let p = \<lparr>pc_columns = [''city'', ''density''], pc_lines = [''A,100'', ''B,400'', ''C,200''],
                pc_cellSep = '',''\<rparr>
      in \<lparr>po_getColumns = pc_getColumns p,
          po_toDatasetArray = (\<lambda>cellTransformers. toDatasetArray p cellTransformers [])\<rparr>)"

text \<open>
  The pipeline in the words of the specification: the percent of a density cell, the
  table with the \<open>percent\<close> column appended, and that table sorted by \<open>percent\<close> in
  descending order.
\<close>

definition spec_percent :: "jsnum \<Rightarrow> jsval \<Rightarrow> jsnum" where
  "spec_percent maxDensity densityCell =
     Math_round (js_div (js_mul (ToNumber densityCell) (Fin 100)) maxDensity)"

definition spec_with_percent :: "string list \<Rightarrow> jsval list list \<Rightarrow> tableData" where
  "spec_with_percent columns rows =
     (let maxDensity = maxBy (new_TableData columns rows) ''density'';
          d = indexOf columns ''density''
      in new_TableData (columns @ [''percent''])
           (map (\<lambda>row. row @ [Num (spec_percent maxDensity (cell_at row d))]) rows))"

definition spec_result :: "string list \<Rightarrow> jsval list list \<Rightarrow> tableData" where
  "spec_result columns rows = sortBy (spec_with_percent columns rows) ''percent'' (Some ''desc'')"

section \<open>TableData on a store\<close>

text \<open>
  Arrays have an identity: two references may name the same array, and a write through
  one is seen through the other. Here every array lives in a store, at an address. The
  store has the three kinds of arrays of a table (column names, the cells of a row, the
  references to the rows) and the next free address; a read at an address without an
  array of the kind gives the empty array. Creating an array, as \<^verbatim>\<open>[...xs]\<close> and
  \<^verbatim>\<open>xs.map(f)\<close> do, takes the next free address.
\<close>

type_synonym addr = nat

record store =
  col_arrays :: "addr \<rightharpoonup> string list"
  cell_arrays :: "addr \<rightharpoonup> jsval list"
  ref_arrays :: "addr \<rightharpoonup> addr list"
  next_addr :: addr

definition read_cols :: "store \<Rightarrow> addr \<Rightarrow> string list" where
  "read_cols s a = (case col_arrays s a of None \<Rightarrow> [] | Some xs \<Rightarrow> xs)"

definition read_cells :: "store \<Rightarrow> addr \<Rightarrow> jsval list" where
  "read_cells s a = (case cell_arrays s a of None \<Rightarrow> [] | Some xs \<Rightarrow> xs)"

definition read_refs :: "store \<Rightarrow> addr \<Rightarrow> addr list" where
  "read_refs s a = (case ref_arrays s a of None \<Rightarrow> [] | Some xs \<Rightarrow> xs)"

definition alloc_cols :: "store \<Rightarrow> string list \<Rightarrow> addr \<times> store" where
  "alloc_cols s xs =
     (next_addr s,
      s\<lparr>col_arrays := (col_arrays s)(next_addr s \<mapsto> xs), next_addr := Suc (next_addr s)\<rparr>)"

definition alloc_cells :: "store \<Rightarrow> jsval list \<Rightarrow> addr \<times> store" where
  "alloc_cells s xs =
     (next_addr s,
      s\<lparr>cell_arrays := (cell_arrays s)(next_addr s \<mapsto> xs), next_addr := Suc (next_addr s)\<rparr>)"

definition alloc_refs :: "store \<Rightarrow> addr list \<Rightarrow> addr \<times> store" where
  "alloc_refs s xs =
     (next_addr s,
      s\<lparr>ref_arrays := (ref_arrays s)(next_addr s \<mapsto> xs), next_addr := Suc (next_addr s)\<rparr>)"

text \<open>
  \<^verbatim>\<open>rows.map(callback)\<close> where the callback returns a new array of cells: the rows are
  visited in order, each call reads the store as it is then and creates its array; the
  array of the results is created at the end.
\<close>

fun map_alloc :: "(store \<Rightarrow> addr \<Rightarrow> jsval list) \<Rightarrow> store \<Rightarrow> addr list \<Rightarrow> addr list \<times> store" where
  "map_alloc g s [] = ([], s)"
| "map_alloc g s (r # rs) =
     (let (a, s1) = alloc_cells s (g s r);
          (as, s2) = map_alloc g s1 rs
      in (a # as, s2))"

definition map_rows :: "(store \<Rightarrow> addr \<Rightarrow> jsval list) \<Rightarrow> store \<Rightarrow> addr \<Rightarrow> addr \<times> store" where
  "map_rows g s rows =
     (let (as, s1) = map_alloc g s (read_refs s rows)
      in alloc_refs s1 as)"

text \<open>
  A table object holds the references \<^verbatim>\<open>#columns\<close> and \<^verbatim>\<open>#rows\<close>; they are set by the
  constructor and never assigned again.
\<close>

record table_object =
  o_columns :: addr
  o_rows :: addr

text \<open>\<^verbatim>\<open>new TableData(columns, rows)\<close>: copies the columns, then each row.\<close>

definition st_new_TableData :: "store \<Rightarrow> addr \<Rightarrow> addr \<Rightarrow> table_object \<times> store" where
  "st_new_TableData s columns rows =
     (let (c, s1) = alloc_cols s (read_cols s columns);
          (r, s2) = map_rows (\<lambda>s row. read_cells s row) s1 rows
      in (\<lparr>o_columns = c, o_rows = r\<rparr>, s2))"

text \<open>
  \<^verbatim>\<open>addColumn\<close>: \<open>compute\<close> is a pure function; it is given the cells of the row, the
  columns and the rows of the table as they are in the store at the call.
\<close>

definition st_addColumn ::
  "store \<Rightarrow> table_object \<Rightarrow> string \<Rightarrow> compute_fn \<Rightarrow> table_object \<times> store" where
  "st_addColumn s t name compute =
     (let (columns, s1) = alloc_cols s (read_cols s (o_columns t) @ [name]);
          (rows, s2) = map_rows (\<lambda>s row.
              read_cells s row @
                [compute (read_cells s row) (read_cols s (o_columns t))
                   (map (read_cells s) (read_refs s (o_rows t)))])
            s1 (o_rows t)
      in st_new_TableData s2 columns rows)"

text \<open>
  \<^verbatim>\<open>sortBy\<close>: the copy \<^verbatim>\<open>[...this.#rows]\<close> is a new array of the same references; it
  is sorted in place, the comparator reading the cells behind the references.
\<close>

definition st_sortBy ::
  "store \<Rightarrow> table_object \<Rightarrow> string \<Rightarrow> string option \<Rightarrow> table_object \<times> store" where
  "st_sortBy s t column order_arg =
     (let order = (case order_arg of None \<Rightarrow> ''desc'' | Some x \<Rightarrow> x);
          colIndex = indexOf (read_cols s (o_columns t)) column;
          compare = (if order = ''desc''
            then (\<lambda>a b. js_sub (ToNumber (cell_at (read_cells s b) colIndex))
                              (ToNumber (cell_at (read_cells s a) colIndex)))
            else (\<lambda>a b. js_sub (ToNumber (cell_at (read_cells s a) colIndex))
                              (ToNumber (cell_at (read_cells s b) colIndex))));
          (rows, s1) = alloc_refs s (read_refs s (o_rows t));
          s2 = s1\<lparr>ref_arrays := (ref_arrays s1)(rows \<mapsto> Array_sort compare (read_refs s1 rows))\<rparr>
      in st_new_TableData s2 (o_columns t) rows)"

definition st_getColumns :: "store \<Rightarrow> table_object \<Rightarrow> addr \<times> store" where
  "st_getColumns s t = alloc_cols s (read_cols s (o_columns t))"

definition st_getRows :: "store \<Rightarrow> table_object \<Rightarrow> addr \<times> store" where
  "st_getRows s t = map_rows (\<lambda>s row. read_cells s row) s (o_rows t)"

text \<open>
  The value of what a getter returned: the column names, or the rows with their cells,
  behind the reference it gave, in the store it left.
\<close>

definition columns_returned :: "addr \<times> store \<Rightarrow> string list" where
  "columns_returned r = read_cols (snd r) (fst r)"

definition rows_returned :: "addr \<times> store \<Rightarrow> jsval list list" where
  "rows_returned r = map (read_cells (snd r)) (read_refs (snd r) (fst r))"

text \<open>The table a table object stands for in a store.\<close>

definition table_of :: "store \<Rightarrow> table_object \<Rightarrow> tableData" where
  "table_of s t =
     \<lparr>td_columns = read_cols s (o_columns t),
      td_rows = map (read_cells s) (read_refs s (o_rows t))\<rparr>"

text \<open>The arrays of a table object, and a table object whose arrays all exist.\<close>

definition table_addrs :: "store \<Rightarrow> table_object \<Rightarrow> addr set" where
  "table_addrs s t = insert (o_columns t) (insert (o_rows t) (set (read_refs s (o_rows t))))"

definition valid_table :: "store \<Rightarrow> table_object \<Rightarrow> bool" where
  "valid_table s t =
     (o_columns t < next_addr s \<and> o_rows t < next_addr s \<and>
      list_all (\<lambda>r. r < next_addr s) (read_refs s (o_rows t)))"

text \<open>
  A store extends another when it has every array of the other unchanged: the
  addresses below the other's next free address hold what they held.
\<close>

definition extends :: "store \<Rightarrow> store \<Rightarrow> bool" where
  "extends s s' =
     (next_addr s \<le> next_addr s' \<and>
      (\<forall>a < next_addr s. col_arrays s' a = col_arrays s a \<and>
                         cell_arrays s' a = cell_arrays s a \<and>
                         ref_arrays s' a = ref_arrays s a))"

text \<open>The scenario table in a store: its three rows, its rows array and its columns.\<close>

definition scenario_store :: store where
  "scenario_store =
     \<lparr>col_arrays = [4 \<mapsto> [''city'', ''density'']],
      cell_arrays = [0 \<mapsto> [Str ''A'', Num (Fin 100)], 1 \<mapsto> [Str ''B'', Num (Fin 400)],
                     2 \<mapsto> [Str ''C'', Num (Fin 200)]],
      ref_arrays = [3 \<mapsto> [0, 1, 2]],
      next_addr = 5\<rparr>"

definition scenario_object :: table_object where
  "scenario_object = \<lparr>o_columns = 4, o_rows = 3\<rparr>"

section \<open>Properties\<close>

subsection \<open>Index lookup and maximum\<close>

lemma indexOf_ge: "- 1 \<le> indexOf xs x"
  by (induction xs) (auto simp: Let_def)

lemma indexOf_absent: "x \<notin> set xs \<Longrightarrow> indexOf xs x = - 1"
  by (induction xs) (auto simp: Let_def)

lemma indexOf_present: "x \<in> set xs \<Longrightarrow> 0 \<le> indexOf xs x \<and> nat (indexOf xs x) < length xs \<and> xs ! nat (indexOf xs x) = x"
proof (induction xs)
  case Nil
  then show ?case by simp
next
  case (Cons y ys)
  show ?case
  proof (cases "y = x")
    case True
    then show ?thesis by simp
  next
    case False
    with Cons.prems have "x \<in> set ys" by simp
    from Cons.IH [OF this] False show ?thesis
      by (simp add: Let_def nat_add_distrib)
  qed
qed

lemma cell_at_minus_one: "cell_at row (- 1) = Undefined"
  by (simp add: cell_at_def)

lemma js_max2_NaN_right: "js_max2 a NaN = NaN"
  by (cases a) simp_all

lemma foldl_js_max2_NaN: "foldl js_max2 NaN xs = NaN"
  by (induction xs) simp_all

lemma foldl_js_max2_has_NaN: "NaN \<in> set xs \<Longrightarrow> foldl js_max2 acc xs = NaN"
  by (induction xs arbitrary: acc) (auto simp: js_max2_NaN_right foldl_js_max2_NaN)

lemma Math_max_NaN: "NaN \<in> set xs \<Longrightarrow> Math_max xs = NaN"
  by (simp add: Math_max_def foldl_js_max2_has_NaN)

lemma js_le_refl: "a \<noteq> NaN \<Longrightarrow> js_le a a"
  by (simp add: js_le_def)

lemma js_lt_trans: "js_lt a b \<Longrightarrow> js_lt b c \<Longrightarrow> js_lt a c"
  by (cases a; cases b; cases c) simp_all

lemma js_le_trans: "js_le a b \<Longrightarrow> js_le b c \<Longrightarrow> js_le a c"
  unfolding js_le_def using js_lt_trans by blast

lemma js_lt_total: "a \<noteq> NaN \<Longrightarrow> b \<noteq> NaN \<Longrightarrow> js_lt a b \<or> a = b \<or> js_lt b a"
  by (cases a; cases b) auto

lemma js_not_lt_le: "a \<noteq> NaN \<Longrightarrow> b \<noteq> NaN \<Longrightarrow> \<not> js_lt a b \<Longrightarrow> js_le b a"
  unfolding js_le_def using js_lt_total by blast

lemma js_lt_le: "js_lt a b \<Longrightarrow> js_le a b"
  by (cases a; cases b) (simp_all add: js_le_def)

lemma js_max2_cases:
  "a \<noteq> NaN \<Longrightarrow> b \<noteq> NaN \<Longrightarrow> js_max2 a b = (if js_lt a b then b else a)"
  by (cases a; cases b) simp_all

lemma foldl_js_max2_bound:
  "acc \<noteq> NaN \<Longrightarrow> NaN \<notin> set xs \<Longrightarrow>
     foldl js_max2 acc xs \<in> insert acc (set xs) \<and>
     js_le acc (foldl js_max2 acc xs) \<and>
     (\<forall>v \<in> set xs. js_le v (foldl js_max2 acc xs))"
proof (induction xs arbitrary: acc)
  case Nil
  then show ?case by (simp add: js_le_refl)
next
  case (Cons x xs)
  from Cons.prems have x: "x \<noteq> NaN" and xs: "NaN \<notin> set xs" by auto
  let ?m = "js_max2 acc x"
  have m: "?m = (if js_lt acc x then x else acc)"
    using Cons.prems(1) x by (rule js_max2_cases)
  then have mn: "?m \<noteq> NaN" using Cons.prems(1) x by simp
  have am: "js_le acc ?m" using m Cons.prems(1) by (simp add: js_lt_le js_le_refl)
  have xm: "js_le x ?m" using m Cons.prems(1) x by (simp add: js_not_lt_le js_le_refl)
  note IH = Cons.IH [OF mn xs]
  have "foldl js_max2 ?m xs \<in> insert acc (set (x # xs))"
    using IH m by (auto split: if_splits)
  moreover have "js_le acc (foldl js_max2 ?m xs)"
    using IH am js_le_trans by blast
  moreover have "js_le x (foldl js_max2 ?m xs)"
    using IH xm js_le_trans by blast
  ultimately show ?case using IH by simp
qed

lemma js_le_NInf: "js_le v NInf \<Longrightarrow> v = NInf"
  by (cases v) (simp_all add: js_le_def)

lemma Math_max_greatest:
  assumes "xs \<noteq> []" and "NaN \<notin> set xs"
  shows "Math_max xs \<in> set xs \<and> (\<forall>v \<in> set xs. js_le v (Math_max xs))"
proof -
  have b: "Math_max xs \<in> insert NInf (set xs) \<and> (\<forall>v \<in> set xs. js_le v (Math_max xs))"
    using foldl_js_max2_bound [of NInf xs] assms(2) by (simp add: Math_max_def)
  from assms(1) obtain x where x: "x \<in> set xs" by (cases xs) auto
  show ?thesis
  proof (cases "Math_max xs = NInf")
    case True
    with b x have "js_le x NInf" by auto
    then have "x = NInf" by (rule js_le_NInf)
    with x True b show ?thesis by simp
  next
    case False
    with b show ?thesis by auto
  qed
qed

lemma getRows_new [simp]: "getRows (new_TableData cols rws) = rws"
  by (simp add: getRows_def new_TableData_def)

lemma getColumns_new [simp]: "getColumns (new_TableData cols rws) = cols"
  by (simp add: getColumns_def new_TableData_def)

lemma td_rows_getRows: "td_rows t = getRows t"
  by (simp add: getRows_def)

lemma td_columns_getColumns: "td_columns t = getColumns t"
  by (simp add: getColumns_def)

lemma maxBy_eq:
  "maxBy t col =
     Math_max (map (\<lambda>row. ToNumber (cell_at row (indexOf (getColumns t) col))) (getRows t))"
  by (simp add: maxBy_def td_indexOf_def getRows_def getColumns_def)

subsection \<open>maxBy\<close>

text \<open>
  Claim C4. For a table with at least one row and a column name of its column set,
  \<^verbatim>\<open>maxBy(col)\<close> is the maximum of the number coercions of the cells at the index of
  \<open>col\<close>: it is one of these numbers and no other is greater. That is the maximum when
  none of the coercions is \<^verbatim>\<open>NaN\<close>; when one is, the maximum in the sense of
  \<^verbatim>\<open>Math.max\<close> is \<^verbatim>\<open>NaN\<close>, and so is \<^verbatim>\<open>maxBy(col)\<close>.
\<close>

theorem maxBy_is_maximum:
  assumes "getRows t \<noteq> []" and "col \<in> set (getColumns t)"
  shows "let vs = map (\<lambda>row. ToNumber (cell_at row (indexOf (getColumns t) col))) (getRows t)
         in (NaN \<in> set vs \<longrightarrow> maxBy t col = NaN) \<and>
            (NaN \<notin> set vs \<longrightarrow> maxBy t col \<in> set vs \<and> (\<forall>v \<in> set vs. js_le v (maxBy t col)))"
proof -
  let ?vs = "map (\<lambda>row. ToNumber (cell_at row (indexOf (getColumns t) col))) (getRows t)"
  have ne: "?vs \<noteq> []" using assms(1) by simp
  have m: "maxBy t col = Math_max ?vs" by (rule maxBy_eq)
  have "NaN \<in> set ?vs \<Longrightarrow> maxBy t col = NaN"
    unfolding m by (rule Math_max_NaN)
  moreover have "NaN \<notin> set ?vs \<Longrightarrow>
      maxBy t col \<in> set ?vs \<and> (\<forall>v \<in> set ?vs. js_le v (maxBy t col))"
    unfolding m by (rule Math_max_greatest [OF ne])
  ultimately show ?thesis unfolding Let_def by blast
qed

theorem maxBy_is_maximum_witness:
  "getRows scenario_table \<noteq> [] \<and> ''density'' \<in> set (getColumns scenario_table) \<and>
   maxBy scenario_table ''density'' = Fin 400 \<and>
   js_le (Fin 100) (maxBy scenario_table ''density'') \<and>
   js_le (Fin 200) (maxBy scenario_table ''density'') \<and>
   maxBy (new_TableData [''density''] [[Num (Fin 1)], [Str ''n/a'']]) ''density'' = NaN"
proof -
  let ?t2 = "new_TableData [''density''] [[Num (Fin 1)], [Str ''n/a'']]"
  have r: "getRows scenario_table \<noteq> []"
    by (simp add: scenario_table_def)
  have c: "''density'' \<in> set (getColumns scenario_table)"
    by (simp add: scenario_table_def)
  have v: "maxBy scenario_table ''density'' = Fin 400"
    by (simp add: scenario_table_def maxBy_eq cell_at_def Math_max_def)
  have m: "js_le (Fin 100) (maxBy scenario_table ''density'') \<and>
           js_le (Fin 200) (maxBy scenario_table ''density'')"
    using maxBy_is_maximum [OF r c]
    by (simp add: scenario_table_def cell_at_def Let_def)
  have r2: "getRows ?t2 \<noteq> []" by simp
  have c2: "''density'' \<in> set (getColumns ?t2)" by simp
  have n: "NaN \<in> set (map (\<lambda>row. ToNumber (cell_at row (indexOf (getColumns ?t2) ''density'')))
                        (getRows ?t2))"
    by code_simp
  have v2: "maxBy ?t2 ''density'' = NaN"
    using maxBy_is_maximum [OF r2 c2] n unfolding Let_def by blast
  from r c v m v2 show ?thesis by blast
qed

text \<open>
  Claim C9. For a table with no rows and a column name of its column set,
  \<^verbatim>\<open>maxBy(col)\<close> returns \<open>-\<infinity>\<close>, the value of \<^verbatim>\<open>Math.max()\<close> without arguments; it
  does not fail.
\<close>

theorem maxBy_empty_table:
  assumes "getRows t = []" and "col \<in> set (getColumns t)"
  shows "maxBy t col = NInf"
  using assms(1) by (simp add: maxBy_eq Math_max_def)

theorem maxBy_empty_table_witness:
  "getRows (new_TableData [''city'', ''density''] []) = [] \<and>
   ''density'' \<in> set (getColumns (new_TableData [''city'', ''density''] [])) \<and>
   maxBy (new_TableData [''city'', ''density''] []) ''density'' = NInf"
proof -
  have r: "getRows (new_TableData [''city'', ''density''] []) = []" by simp
  have c: "''density'' \<in> set (getColumns (new_TableData [''city'', ''density''] []))" by simp
  show ?thesis using r c maxBy_empty_table [OF r c] by simp
qed

text \<open>
  Claim C10. For a table with at least one row and a column name that is not in its
  column set, \<^verbatim>\<open>maxBy(name)\<close> returns \<^verbatim>\<open>NaN\<close>: the index is \<open>-1\<close>, the cell read
  there is \<^verbatim>\<open>undefined\<close>, its coercion is \<^verbatim>\<open>NaN\<close>, and \<^verbatim>\<open>Math.max\<close> of
  arguments with a \<^verbatim>\<open>NaN\<close> is \<^verbatim>\<open>NaN\<close>.
\<close>

theorem maxBy_unknown_column:
  assumes "getRows t \<noteq> []" and "name \<notin> set (getColumns t)"
  shows "td_indexOf t name = - 1 \<and>
         (\<forall>row \<in> set (getRows t). cell_at row (td_indexOf t name) = Undefined) \<and>
         maxBy t name = NaN"
proof -
  have i: "td_indexOf t name = - 1"
    using assms(2) by (simp add: td_indexOf_def td_columns_getColumns indexOf_absent)
  from assms(1) obtain row where "row \<in> set (getRows t)" by (cases "getRows t") auto
  then have "NaN \<in> set (map (\<lambda>row. ToNumber (cell_at row (indexOf (getColumns t) name))) (getRows t))"
    using assms(2) by (force simp: indexOf_absent cell_at_minus_one)
  then have "maxBy t name = NaN"
    unfolding maxBy_eq by (rule Math_max_NaN)
  with i show ?thesis by (simp add: cell_at_minus_one)
qed

theorem maxBy_unknown_column_witness:
  "getRows scenario_table \<noteq> [] \<and> ''area'' \<notin> set (getColumns scenario_table) \<and>
   maxBy scenario_table ''area'' = NaN"
proof -
  have r: "getRows scenario_table \<noteq> []"
    by (simp add: scenario_table_def)
  have c: "''area'' \<notin> set (getColumns scenario_table)"
    by (simp add: scenario_table_def)
  show ?thesis using r c maxBy_unknown_column [OF r c] by simp
qed

subsection \<open>addColumn\<close>

text \<open>
  Claim C2. For every table and compute function, \<^verbatim>\<open>addColumn(name, compute)\<close> returns
  a table whose columns are those of the input followed by \<open>name\<close> (one column more),
  with as many rows as the input, the \<open>i\<close>-th of which is the \<open>i\<close>-th row of the input
  followed by the value of \<open>compute\<close> on that row, the columns of the input and all the
  rows of the input.
\<close>

theorem addColumn_appends:
  "getColumns (addColumn t name compute) = getColumns t @ [name] \<and>
   length (getColumns (addColumn t name compute)) = length (getColumns t) + 1 \<and>
   length (getRows (addColumn t name compute)) = length (getRows t) \<and>
   (\<forall>i < length (getRows t).
      getRows (addColumn t name compute) ! i =
        getRows t ! i @ [compute (getRows t ! i) (getColumns t) (getRows t)])"
  by (simp add: addColumn_def Let_def td_rows_getRows td_columns_getColumns)

theorem addColumn_appends_witness:
  "getColumns (addColumn scenario_table ''percent'' (percent_compute (Fin 400)))
     = [''city'', ''density'', ''percent''] \<and>
   (1::nat) < length (getRows scenario_table) \<and>
   getRows (addColumn scenario_table ''percent'' (percent_compute (Fin 400))) ! 1
     = [Str ''B'', Num (Fin 400), Num (Fin 100)]"
proof -
  have l: "(1::nat) < length (getRows scenario_table)"
    by (simp add: scenario_table_def)
  have p: "percent_compute (Fin 400) [Str ''B'', Num (Fin 400)] [''city'', ''density'']
             (getRows scenario_table) = Num (Fin 100)"
    by code_simp
  show ?thesis
    using l p addColumn_appends [of scenario_table "''percent''" "percent_compute (Fin 400)"]
    by (simp add: scenario_table_def)
qed

subsection \<open>sortBy\<close>

lemma mset_sort_insert: "mset (sort_insert compare x ys) = add_mset x (mset ys)"
  by (induction ys) auto

lemma mset_Array_sort: "mset (Array_sort compare xs) = mset xs"
  by (induction xs) (auto simp: Array_sort_def mset_sort_insert)

lemma set_sort_insert: "set (sort_insert compare x ys) = insert x (set ys)"
  by (induction ys) auto

lemma length_Array_sort: "length (Array_sort compare xs) = length xs"
  using mset_Array_sort [of compare xs] by (metis size_mset)

lemma is_positive_js_sub:
  "a \<noteq> NaN \<Longrightarrow> b \<noteq> NaN \<Longrightarrow> is_positive (js_sub a b) = js_lt b a"
  by (cases a; cases b) simp_all

text \<open>
  Inserting into a list that is in order keeps it in order, when the comparator decides
  a relation that is transitive and total on the elements.
\<close>

lemma sorted_wrt_sort_insert:
  assumes pos: "\<And>a b. a \<in> S \<Longrightarrow> b \<in> S \<Longrightarrow> is_positive (compare a b) \<Longrightarrow> P b a"
    and npos: "\<And>a b. a \<in> S \<Longrightarrow> b \<in> S \<Longrightarrow> \<not> is_positive (compare a b) \<Longrightarrow> P a b"
    and trans: "\<And>a b c. a \<in> S \<Longrightarrow> b \<in> S \<Longrightarrow> c \<in> S \<Longrightarrow> P a b \<Longrightarrow> P b c \<Longrightarrow> P a c"
  shows "x \<in> S \<Longrightarrow> set ys \<subseteq> S \<Longrightarrow> sorted_wrt P ys \<Longrightarrow> sorted_wrt P (sort_insert compare x ys)"
proof (induction ys)
  case Nil
  then show ?case by simp
next
  case (Cons y ys)
  from Cons.prems have y: "y \<in> S" and ys: "set ys \<subseteq> S"
    and sy: "\<forall>z \<in> set ys. P y z" and sys: "sorted_wrt P ys" by auto
  show ?case
  proof (cases "is_positive (compare x y)")
    case True
    have "P y x" using pos [OF Cons.prems(1) y True] .
    moreover have "sorted_wrt P (sort_insert compare x ys)"
      using Cons.IH [OF Cons.prems(1) ys sys] .
    ultimately show ?thesis using True sy by (simp add: set_sort_insert)
  next
    case False
    have xy: "P x y" using npos [OF Cons.prems(1) y False] .
    have "\<forall>z \<in> set ys. P x z"
    proof
      fix z assume z: "z \<in> set ys"
      with ys have "z \<in> S" by auto
      from trans [OF Cons.prems(1) y this xy] sy z show "P x z" by simp
    qed
    with False xy Cons.prems(3) show ?thesis by simp
  qed
qed

lemma sorted_wrt_Array_sort:
  assumes pos: "\<And>a b. a \<in> S \<Longrightarrow> b \<in> S \<Longrightarrow> is_positive (compare a b) \<Longrightarrow> P b a"
    and npos: "\<And>a b. a \<in> S \<Longrightarrow> b \<in> S \<Longrightarrow> \<not> is_positive (compare a b) \<Longrightarrow> P a b"
    and trans: "\<And>a b c. a \<in> S \<Longrightarrow> b \<in> S \<Longrightarrow> c \<in> S \<Longrightarrow> P a b \<Longrightarrow> P b c \<Longrightarrow> P a c"
  shows "set xs \<subseteq> S \<Longrightarrow> sorted_wrt P (Array_sort compare xs)"
proof (induction xs)
  case Nil
  then show ?case by (simp add: Array_sort_def)
next
  case (Cons x xs)
  then have x: "x \<in> S" and xs: "set xs \<subseteq> S" by auto
  have s: "set (Array_sort compare xs) \<subseteq> S"
    using xs mset_Array_sort [of compare xs] by (metis set_mset_mset)
  have "sorted_wrt P (sort_insert compare x (Array_sort compare xs))"
    using pos npos trans x s Cons.IH [OF xs] by (rule sorted_wrt_sort_insert)
  then show ?case by (simp add: Array_sort_def)
qed

text \<open>The rows of a table in descending, and in ascending, order of a key.\<close>

lemma Array_sort_desc:
  assumes "\<forall>row \<in> set rws. key row \<noteq> NaN"
  shows "sorted_wrt (\<lambda>a b. js_le (key b) (key a))
           (Array_sort (\<lambda>a b. js_sub (key b) (key a)) rws)"
proof (rule sorted_wrt_Array_sort [where S = "{row. key row \<noteq> NaN}"])
  fix a b assume "a \<in> {row. key row \<noteq> NaN}" "b \<in> {row. key row \<noteq> NaN}"
    and "is_positive (js_sub (key b) (key a))"
  then show "js_le (key a) (key b)" by (simp add: is_positive_js_sub js_lt_le)
next
  fix a b assume "a \<in> {row. key row \<noteq> NaN}" "b \<in> {row. key row \<noteq> NaN}"
    and "\<not> is_positive (js_sub (key b) (key a))"
  then show "js_le (key b) (key a)" by (simp add: is_positive_js_sub js_not_lt_le)
next
  fix a b c assume "js_le (key b) (key a)" "js_le (key c) (key b)"
  then show "js_le (key c) (key a)" using js_le_trans by blast
next
  show "set rws \<subseteq> {row. key row \<noteq> NaN}" using assms by auto
qed

lemma Array_sort_asc:
  assumes "\<forall>row \<in> set rws. key row \<noteq> NaN"
  shows "sorted_wrt (\<lambda>a b. js_le (key a) (key b))
           (Array_sort (\<lambda>a b. js_sub (key a) (key b)) rws)"
proof (rule sorted_wrt_Array_sort [where S = "{row. key row \<noteq> NaN}"])
  fix a b assume "a \<in> {row. key row \<noteq> NaN}" "b \<in> {row. key row \<noteq> NaN}"
    and "is_positive (js_sub (key a) (key b))"
  then show "js_le (key b) (key a)" by (simp add: is_positive_js_sub js_lt_le)
next
  fix a b assume "a \<in> {row. key row \<noteq> NaN}" "b \<in> {row. key row \<noteq> NaN}"
    and "\<not> is_positive (js_sub (key a) (key b))"
  then show "js_le (key a) (key b)" by (simp add: is_positive_js_sub js_not_lt_le)
next
  fix a b c assume "js_le (key a) (key b)" "js_le (key b) (key c)"
  then show "js_le (key a) (key c)" using js_le_trans by blast
next
  show "set rws \<subseteq> {row. key row \<noteq> NaN}" using assms by auto
qed

lemma getRows_sortBy_desc:
  "order_arg = None \<or> order_arg = Some ''desc'' \<Longrightarrow>
   getRows (sortBy t col order_arg) =
     Array_sort (\<lambda>a b. js_sub (ToNumber (cell_at b (td_indexOf t col)))
                           (ToNumber (cell_at a (td_indexOf t col)))) (getRows t)"
  by (auto simp: sortBy_def Let_def td_rows_getRows)

lemma getRows_sortBy_asc:
  "order_arg = Some s \<Longrightarrow> s \<noteq> ''desc'' \<Longrightarrow>
   getRows (sortBy t col order_arg) =
     Array_sort (\<lambda>a b. js_sub (ToNumber (cell_at a (td_indexOf t col)))
                           (ToNumber (cell_at b (td_indexOf t col)))) (getRows t)"
  by (auto simp: sortBy_def Let_def td_rows_getRows)

lemma getRows_sortBy_mset: "mset (getRows (sortBy t col order_arg)) = mset (getRows t)"
  by (simp add: sortBy_def Let_def td_rows_getRows mset_Array_sort)

lemma getColumns_sortBy: "getColumns (sortBy t col order_arg) = getColumns t"
  by (simp add: sortBy_def Let_def td_columns_getColumns)

text \<open>
  Claim C3. A cell is numeric when its number coercion is a number other than
  \<^verbatim>\<open>NaN\<close>. For a table whose cells at the index of \<open>col\<close> are numeric,
  \<^verbatim>\<open>sortBy(col, 'desc')\<close> (also with the order left out, which defaults to it) returns
  rows in non-increasing order of the number at that index: each row's number is at
  least the number of every later row. With any other order the rows are in
  non-decreasing order. In both cases the rows returned are a permutation of the rows
  of the input: the same multiset, so the same count.
\<close>

theorem sortBy_sorted_permutation:
  assumes "\<forall>row \<in> set (getRows t). ToNumber (cell_at row (td_indexOf t col)) \<noteq> NaN"
  shows "(order_arg = None \<or> order_arg = Some ''desc'' \<longrightarrow>
            sorted_wrt (\<lambda>a b. js_le (ToNumber (cell_at b (td_indexOf t col)))
                                    (ToNumber (cell_at a (td_indexOf t col))))
              (getRows (sortBy t col order_arg))) \<and>
         (order_arg \<noteq> None \<and> order_arg \<noteq> Some ''desc'' \<longrightarrow>
            sorted_wrt (\<lambda>a b. js_le (ToNumber (cell_at a (td_indexOf t col)))
                                    (ToNumber (cell_at b (td_indexOf t col))))
              (getRows (sortBy t col order_arg))) \<and>
         mset (getRows (sortBy t col order_arg)) = mset (getRows t) \<and>
         length (getRows (sortBy t col order_arg)) = length (getRows t)"
proof -
  let ?key = "\<lambda>row. ToNumber (cell_at row (td_indexOf t col))"
  have d: "order_arg = None \<or> order_arg = Some ''desc'' \<Longrightarrow>
      sorted_wrt (\<lambda>a b. js_le (?key b) (?key a)) (getRows (sortBy t col order_arg))"
    using Array_sort_desc [of "getRows t" ?key] assms by (simp add: getRows_sortBy_desc)
  have a: "order_arg \<noteq> None \<and> order_arg \<noteq> Some ''desc'' \<Longrightarrow>
      sorted_wrt (\<lambda>a b. js_le (?key a) (?key b)) (getRows (sortBy t col order_arg))"
  proof -
    assume "order_arg \<noteq> None \<and> order_arg \<noteq> Some ''desc''"
    then obtain s where s: "order_arg = Some s" "s \<noteq> ''desc''" by (cases order_arg) auto
    show ?thesis
      using Array_sort_asc [of "getRows t" ?key] assms by (simp add: getRows_sortBy_asc [OF s])
  qed
  have m: "mset (getRows (sortBy t col order_arg)) = mset (getRows t)"
    by (rule getRows_sortBy_mset)
  have l: "length (getRows (sortBy t col order_arg)) = length (getRows t)"
    using m by (metis size_mset)
  from d a m l show ?thesis by blast
qed

theorem sortBy_sorted_permutation_witness:
  "list_all (\<lambda>row. ToNumber (cell_at row (td_indexOf scenario_table ''density'')) \<noteq> NaN)
     (getRows scenario_table) \<and>
   getRows (sortBy scenario_table ''density'' (Some ''desc''))
     = [[Str ''B'', Num (Fin 400)], [Str ''C'', Num (Fin 200)], [Str ''A'', Num (Fin 100)]] \<and>
   getRows (sortBy scenario_table ''density'' (Some ''asc''))
     = [[Str ''A'', Num (Fin 100)], [Str ''C'', Num (Fin 200)], [Str ''B'', Num (Fin 400)]] \<and>
   sorted_wrt (\<lambda>a b. js_le (ToNumber (cell_at b (td_indexOf scenario_table ''density'')))
                           (ToNumber (cell_at a (td_indexOf scenario_table ''density''))))
     (getRows (sortBy scenario_table ''density'' (Some ''desc''))) \<and>
   mset (getRows (sortBy scenario_table ''density'' (Some ''desc'')))
     = mset (getRows scenario_table)"
proof -
  have h: "\<forall>row \<in> set (getRows scenario_table).
      ToNumber (cell_at row (td_indexOf scenario_table ''density'')) \<noteq> NaN"
    by (simp add: scenario_table_def td_indexOf_def getRows_def new_TableData_def cell_at_def)
  have d: "getRows (sortBy scenario_table ''density'' (Some ''desc''))
     = [[Str ''B'', Num (Fin 400)], [Str ''C'', Num (Fin 200)], [Str ''A'', Num (Fin 100)]]"
    by code_simp
  have a: "getRows (sortBy scenario_table ''density'' (Some ''asc''))
     = [[Str ''A'', Num (Fin 100)], [Str ''C'', Num (Fin 200)], [Str ''B'', Num (Fin 400)]]"
    by code_simp
  show ?thesis
    using h d a sortBy_sorted_permutation [OF h, of "Some ''desc''"]
    by (simp add: list_all_iff)
qed

subsection \<open>The row-length invariant\<close>

lemma rows_match_columns_iff:
  "rows_match_columns t = (\<forall>row \<in> set (getRows t). length row = length (getColumns t))"
  by (simp add: rows_match_columns_def list_all_iff)

lemma addColumn_rows_match:
  assumes "rows_match_columns t"
  shows "rows_match_columns (addColumn t name compute)"
  using assms
  by (auto simp: rows_match_columns_iff addColumn_def Let_def td_rows_getRows
        td_columns_getColumns)

lemma sortBy_rows_match:
  assumes "rows_match_columns t"
  shows "rows_match_columns (sortBy t col order_arg)"
proof -
  have "set (getRows (sortBy t col order_arg)) = set (getRows t)"
    using getRows_sortBy_mset [of t col order_arg] by (metis set_mset_mset)
  then show ?thesis
    using assms by (simp add: rows_match_columns_iff getColumns_sortBy)
qed

lemma apply_op_rows_match: "rows_match_columns t \<Longrightarrow> rows_match_columns (apply_op t x)"
  by (cases x) (simp_all add: addColumn_rows_match sortBy_rows_match)

lemma apply_op_columns:
  "length (getColumns (apply_op t x)) = length (getColumns t) + (if adds_column x then 1 else 0)"
  by (cases x) (simp_all add: getColumns_sortBy addColumn_def Let_def td_columns_getColumns)

lemma apply_ops_rows_match:
  "rows_match_columns t \<Longrightarrow> rows_match_columns (apply_ops t ops)"
  unfolding apply_ops_def
  by (induction ops arbitrary: t) (simp_all add: apply_op_rows_match)

lemma apply_ops_columns:
  "length (getColumns (apply_ops t ops)) = length (getColumns t) + length (filter adds_column ops)"
  unfolding apply_ops_def
  by (induction ops arbitrary: t) (simp_all add: apply_op_columns)

text \<open>
  Claim C7. For a table constructed from rows that each have as many cells as there
  are columns, the table produced by any sequence of \<^verbatim>\<open>addColumn\<close> and \<^verbatim>\<open>sortBy\<close>
  operations again has, in every row, as many cells as it has columns; the column
  count has grown by the number of \<^verbatim>\<open>addColumn\<close> operations.
\<close>

theorem row_length_invariant:
  assumes "\<forall>row \<in> set rows. length row = length columns"
  shows "(\<forall>row \<in> set (getRows (apply_ops (new_TableData columns rows) ops)).
            length row = length (getColumns (apply_ops (new_TableData columns rows) ops))) \<and>
         length (getColumns (apply_ops (new_TableData columns rows) ops))
           = length columns + length (filter adds_column ops)"
proof -
  have "rows_match_columns (new_TableData columns rows)"
    using assms by (simp add: rows_match_columns_iff)
  then have "rows_match_columns (apply_ops (new_TableData columns rows) ops)"
    by (rule apply_ops_rows_match)
  then show ?thesis
    by (simp add: rows_match_columns_iff apply_ops_columns)
qed

theorem row_length_invariant_witness:
  "list_all (\<lambda>row. length row = length [''city'', ''density''])
     [[Str ''A'', Num (Fin 100)], [Str ''B'', Num (Fin 400)]] \<and>
   getRows (apply_ops
      (new_TableData [''city'', ''density''] [[Str ''A'', Num (Fin 100)], [Str ''B'', Num (Fin 400)]])
      [AddColumn ''percent'' (percent_compute (Fin 400)), SortBy ''percent'' None])
     = [[Str ''B'', Num (Fin 400), Num (Fin 100)], [Str ''A'', Num (Fin 100), Num (Fin 25)]] \<and>
   length (getColumns (apply_ops
      (new_TableData [''city'', ''density''] [[Str ''A'', Num (Fin 100)], [Str ''B'', Num (Fin 400)]])
      [AddColumn ''percent'' (percent_compute (Fin 400)), SortBy ''percent'' None])) = 3"
proof -
  have h: "\<forall>row \<in> set [[Str ''A'', Num (Fin 100)], [Str ''B'', Num (Fin 400)]].
      length row = length [''city'', ''density'']"
    by simp
  have v: "getRows (apply_ops
      (new_TableData [''city'', ''density''] [[Str ''A'', Num (Fin 100)], [Str ''B'', Num (Fin 400)]])
      [AddColumn ''percent'' (percent_compute (Fin 400)), SortBy ''percent'' None])
     = [[Str ''B'', Num (Fin 400), Num (Fin 100)], [Str ''A'', Num (Fin 100), Num (Fin 25)]]"
    by code_simp
  have "length (getColumns (apply_ops
      (new_TableData [''city'', ''density''] [[Str ''A'', Num (Fin 100)], [Str ''B'', Num (Fin 400)]])
      [AddColumn ''percent'' (percent_compute (Fin 400)), SortBy ''percent'' None]))
     = length [''city'', ''density''] + length (filter adds_column
         [AddColumn ''percent'' (percent_compute (Fin 400)), SortBy ''percent'' None])"
    using row_length_invariant [OF h,
        of "[AddColumn ''percent'' (percent_compute (Fin 400)), SortBy ''percent'' None]"]
    by (rule conjunct2)
  then have c: "length (getColumns (apply_ops
      (new_TableData [''city'', ''density''] [[Str ''A'', Num (Fin 100)], [Str ''B'', Num (Fin 400)]])
      [AddColumn ''percent'' (percent_compute (Fin 400)), SortBy ''percent'' None])) = 3"
    by simp
  have h': "list_all (\<lambda>row. length row = length [''city'', ''density''])
     [[Str ''A'', Num (Fin 100)], [Str ''B'', Num (Fin 400)]]"
    by simp
  from h' v c show ?thesis by blast
qed

subsection \<open>Unknown formats\<close>

text \<open>
  Claim C6. When the input format has no registered parser, \<^verbatim>\<open>run\<close> throws an error
  whose message names the input format; when it has one and the output format has no
  registered renderer, \<^verbatim>\<open>run\<close> throws an error whose message names the output
  format. In both cases (so whenever one of the two is missing) nothing was sent to the
  sink: \<^verbatim>\<open>render\<close> was not called.
\<close>

theorem run_unknown_format:
  "(a_parsers a (a_inputFormat a) = None \<longrightarrow>
      run a = ([], Inl (Error (''No parser registered for input format: '' @ [CHR 0x22]
                                @ a_inputFormat a @ [CHR 0x22])))) \<and>
   (a_parsers a (a_inputFormat a) \<noteq> None \<and> a_renderers a (a_outputFormat a) = None \<longrightarrow>
      run a = ([], Inl (Error (''No renderer registered for output format: '' @ [CHR 0x22]
                                @ a_outputFormat a @ [CHR 0x22])))) \<and>
   (a_parsers a (a_inputFormat a) = None \<or> a_renderers a (a_outputFormat a) = None \<longrightarrow>
      fst (run a) = [] \<and> (\<exists>msg. snd (run a) = Inl (Error msg)))"
proof -
  have p: "a_parsers a (a_inputFormat a) = None \<Longrightarrow>
      run a = ([], Inl (Error (''No parser registered for input format: '' @ [CHR 0x22]
                                @ a_inputFormat a @ [CHR 0x22])))"
    by (simp add: run_def)
  have r: "a_parsers a (a_inputFormat a) \<noteq> None \<Longrightarrow> a_renderers a (a_outputFormat a) = None \<Longrightarrow>
      run a = ([], Inl (Error (''No renderer registered for output format: '' @ [CHR 0x22]
                                @ a_outputFormat a @ [CHR 0x22])))"
  proof -
    assume "a_parsers a (a_inputFormat a) \<noteq> None"
    then obtain P where P: "a_parsers a (a_inputFormat a) = Some P" by blast
    assume "a_renderers a (a_outputFormat a) = None"
    with P show ?thesis by (simp add: run_def)
  qed
  have e: "a_parsers a (a_inputFormat a) = None \<or> a_renderers a (a_outputFormat a) = None \<Longrightarrow>
      fst (run a) = [] \<and> (\<exists>msg. snd (run a) = Inl (Error msg))"
  proof (cases "a_parsers a (a_inputFormat a)")
    case None
    from p [OF None] show ?thesis by simp
  next
    case (Some P)
    assume "a_parsers a (a_inputFormat a) = None \<or> a_renderers a (a_outputFormat a) = None"
    with Some have n: "a_renderers a (a_outputFormat a) = None" by simp
    from Some have "a_parsers a (a_inputFormat a) \<noteq> None" by simp
    from r [OF this n] show ?thesis by simp
  qed
  from p r e show ?thesis by blast
qed

theorem run_unknown_format_witness:
  "a_parsers (scenario_app\<lparr>a_inputFormat := ''xml''\<rparr>) ''xml'' = None \<and>
   run (scenario_app\<lparr>a_inputFormat := ''xml''\<rparr>)
     = ([], Inl (Error (''No parser registered for input format: '' @ [CHR 0x22]
                         @ ''xml'' @ [CHR 0x22]))) \<and>
   a_parsers (scenario_app\<lparr>a_outputFormat := ''html''\<rparr>) ''csv'' \<noteq> None \<and>
   a_renderers (scenario_app\<lparr>a_outputFormat := ''html''\<rparr>) ''html'' = None \<and>
   run (scenario_app\<lparr>a_outputFormat := ''html''\<rparr>)
     = ([], Inl (Error (''No renderer registered for output format: '' @ [CHR 0x22]
                         @ ''html'' @ [CHR 0x22])))"
proof -
  have i: "a_parsers (scenario_app\<lparr>a_inputFormat := ''xml''\<rparr>)
             (a_inputFormat (scenario_app\<lparr>a_inputFormat := ''xml''\<rparr>)) = None"
    by (simp add: scenario_app_def)
  have p: "a_parsers (scenario_app\<lparr>a_outputFormat := ''html''\<rparr>)
             (a_inputFormat (scenario_app\<lparr>a_outputFormat := ''html''\<rparr>)) \<noteq> None"
    by (simp add: scenario_app_def)
  have r: "a_renderers (scenario_app\<lparr>a_outputFormat := ''html''\<rparr>)
             (a_outputFormat (scenario_app\<lparr>a_outputFormat := ''html''\<rparr>)) = None"
    by (simp add: scenario_app_def)
  have f: "a_inputFormat (scenario_app\<lparr>a_outputFormat := ''html''\<rparr>) = ''csv''"
    by (simp add: scenario_app_def)
  from run_unknown_format [of "scenario_app\<lparr>a_inputFormat := ''xml''\<rparr>"] i
  have 1: "run (scenario_app\<lparr>a_inputFormat := ''xml''\<rparr>)
     = ([], Inl (Error (''No parser registered for input format: '' @ [CHR 0x22]
                         @ ''xml'' @ [CHR 0x22])))"
    by simp
  from run_unknown_format [of "scenario_app\<lparr>a_outputFormat := ''html''\<rparr>"] p r
  have 2: "run (scenario_app\<lparr>a_outputFormat := ''html''\<rparr>)
     = ([], Inl (Error (''No renderer registered for output format: '' @ [CHR 0x22]
                         @ ''html'' @ [CHR 0x22])))"
    by simp
  from i p r f 1 2 show ?thesis by simp
qed

subsection \<open>Schema casting\<close>

lemma toDatasetArray_cell:
  assumes "i < length (pc_lines p)"
    and "j < length (js_split (pc_lines p ! i) (pc_cellSep p))"
  shows "toDatasetArray p [cellWithTypes types] [] ! i ! j =
           cellWithTypes types (Str (js_split (pc_lines p ! i) (pc_cellSep p) ! j))
             (column_at (pc_columns p) j)"
  using assms by (simp add: toDatasetArray_def Let_def nth_enumerate_eq)

lemma ParserCsv_scenario:
  "ParserCsv ''a,b\<newline>1,2\<newline>3,4'' =
     Inr \<lparr>po_getColumns = [''a'', ''b''],
          po_toDatasetArray = (\<lambda>cellTransformers.
            toDatasetArray \<lparr>pc_columns = [''a'', ''b''], pc_lines = [''1,2'', ''3,4''],
                            pc_cellSep = '',''\<rparr> cellTransformers [])\<rparr>"
  by (simp add: ParserCsv_def new_ParserCsv_def js_split_def pc_getColumns_def)

lemma Number_cast_digit:
  "Number_cast (Str ''2'') = Num (Fin 2)" "Number_cast (Str ''4'') = Num (Fin 4)"
  by code_simp+

lemma toDatasetArray_scenario:
  assumes "types ''a'' = None" and "types ''b'' = Some Number_cast"
  shows "toDatasetArray \<lparr>pc_columns = [''a'', ''b''], pc_lines = [''1,2'', ''3,4''],
                          pc_cellSep = '',''\<rparr> [cellWithTypes types] []
           = [[Str ''1'', Num (Fin 2)], [Str ''3'', Num (Fin 4)]]"
  using assms
  by (simp add: toDatasetArray_def js_split_def cellWithTypes_def column_at_def
        property_key_def Number_cast_digit)

text \<open>
  Claim C8. The CSV text of the scenario, two columns \<open>a\<close> and \<open>b\<close> and two data
  lines, parsed with a schema that has the cast \<^verbatim>\<open>Number\<close> for \<open>b\<close> and none for \<open>a\<close>,
  has the columns \<open>a\<close> and \<open>b\<close> and the rows \<open>['1', 2]\<close> and \<open>['3', 4]\<close>. In general
  the schema is applied cell by cell: the cell \<open>j\<close> of the data line \<open>i\<close>, under a column
  of the header, is the result of the cast registered for that column when there is
  one, and the string of the text otherwise.
\<close>

theorem schema_cast_per_cell:
  "(types ''a'' = None \<and> types ''b'' = Some Number_cast \<longrightarrow>
      (case ParserCsv ''a,b\<newline>1,2\<newline>3,4'' of
         Inl e \<Rightarrow> False
       | Inr parser \<Rightarrow>
           po_getColumns parser = [''a'', ''b''] \<and>
           po_toDatasetArray parser [cellWithTypes types]
             = [[Str ''1'', Num (Fin 2)], [Str ''3'', Num (Fin 4)]])) \<and>
   (\<forall>i < length (pc_lines p). \<forall>j < length (js_split (pc_lines p ! i) (pc_cellSep p)).
      j < length (pc_columns p) \<longrightarrow>
      toDatasetArray p [cellWithTypes types] [] ! i ! j =
        (case types (pc_columns p ! j) of
           Some cast \<Rightarrow> cast (Str (js_split (pc_lines p ! i) (pc_cellSep p) ! j))
         | None \<Rightarrow> Str (js_split (pc_lines p ! i) (pc_cellSep p) ! j)))"
proof -
  have s: "case ParserCsv ''a,b\<newline>1,2\<newline>3,4'' of
      Inl e \<Rightarrow> False
    | Inr parser \<Rightarrow>
        po_getColumns parser = [''a'', ''b''] \<and>
        po_toDatasetArray parser [cellWithTypes types]
          = [[Str ''1'', Num (Fin 2)], [Str ''3'', Num (Fin 4)]]"
    if "types ''a'' = None \<and> types ''b'' = Some Number_cast"
    unfolding ParserCsv_scenario using that by (simp add: toDatasetArray_scenario)
  have g: "\<And>i j. i < length (pc_lines p) \<Longrightarrow>
      j < length (js_split (pc_lines p ! i) (pc_cellSep p)) \<Longrightarrow>
      j < length (pc_columns p) \<Longrightarrow>
      toDatasetArray p [cellWithTypes types] [] ! i ! j =
        (case types (pc_columns p ! j) of
           Some cast \<Rightarrow> cast (Str (js_split (pc_lines p ! i) (pc_cellSep p) ! j))
         | None \<Rightarrow> Str (js_split (pc_lines p ! i) (pc_cellSep p) ! j))"
    by (simp only: toDatasetArray_cell) (simp add: cellWithTypes_def column_at_def property_key_def)
  from s g show ?thesis by blast
qed

theorem schema_cast_per_cell_witness:
  "[''b'' \<mapsto> Number_cast] ''a'' = None \<and>
   [''b'' \<mapsto> Number_cast] ''b'' = Some Number_cast \<and>
   (case ParserCsv ''a,b\<newline>1,2\<newline>3,4'' of
      Inl e \<Rightarrow> False
    | Inr parser \<Rightarrow>
        po_getColumns parser = [''a'', ''b''] \<and>
        po_toDatasetArray parser [cellWithTypes [''b'' \<mapsto> Number_cast]]
          = [[Str ''1'', Num (Fin 2)], [Str ''3'', Num (Fin 4)]]) \<and>
   (1::nat) < length (pc_lines \<lparr>pc_columns = [''a'', ''b''], pc_lines = [''1,2'', ''3,4''],
                                pc_cellSep = '',''\<rparr>) \<and>
   (1::nat) < length (js_split ''3,4'' '','')  \<and>
   (1::nat) < length [''a'', ''b''] \<and>
   toDatasetArray \<lparr>pc_columns = [''a'', ''b''], pc_lines = [''1,2'', ''3,4''], pc_cellSep = '',''\<rparr>
     [cellWithTypes [''b'' \<mapsto> Number_cast]] [] ! 1 ! 1 = Num (Fin 4)"
proof -
  let ?p = "\<lparr>pc_columns = [''a'', ''b''], pc_lines = [''1,2'', ''3,4''], pc_cellSep = '',''\<rparr>"
  let ?types = "[''b'' \<mapsto> Number_cast]"
  note t = schema_cast_per_cell [of ?types ?p]
  have ta: "?types ''a'' = None" by simp
  have tb: "?types ''b'' = Some Number_cast" by simp
  have sc: "case ParserCsv ''a,b\<newline>1,2\<newline>3,4'' of
      Inl e \<Rightarrow> False
    | Inr parser \<Rightarrow>
        po_getColumns parser = [''a'', ''b''] \<and>
        po_toDatasetArray parser [cellWithTypes ?types]
          = [[Str ''1'', Num (Fin 2)], [Str ''3'', Num (Fin 4)]]"
    using t [THEN conjunct1] ta tb by blast
  have a: "(1::nat) < length (pc_lines ?p)" by simp
  have b: "(1::nat) < length (js_split ''3,4'' '','')" by code_simp
  have b': "(1::nat) < length (js_split (pc_lines ?p ! 1) (pc_cellSep ?p))" using b by simp
  have c: "(1::nat) < length (pc_columns ?p)" by simp
  from t [THEN conjunct2] a b' c
  have "toDatasetArray ?p [cellWithTypes ?types] [] ! 1 ! 1 =
        (case ?types (pc_columns ?p ! 1) of
           Some cast \<Rightarrow> cast (Str (js_split (pc_lines ?p ! 1) (pc_cellSep ?p) ! 1))
         | None \<Rightarrow> Str (js_split (pc_lines ?p ! 1) (pc_cellSep ?p) ! 1))"
    by blast
  also have "\<dots> = Num (Fin 4)" by code_simp
  finally have v: "toDatasetArray ?p [cellWithTypes ?types] [] ! 1 ! 1 = Num (Fin 4)" .
  have c': "(1::nat) < length [''a'', ''b'']" by simp
  show ?thesis
    by (rule conjI [OF ta conjI [OF tb conjI [OF sc conjI [OF a conjI [OF b conjI [OF c' v]]]]]])
qed

subsection \<open>The pipeline of run\<close>

lemma indexOf_append_new: "x \<notin> set xs \<Longrightarrow> indexOf (xs @ [x]) x = int (length xs)"
  by (induction xs) (auto simp: Let_def)

lemma cell_at_appended: "cell_at (row @ [v]) (int (length row)) = v"
  by (simp add: cell_at_def)

lemma sortBy_default_order: "sortBy t col None = sortBy t col (Some ''desc'')"
  by (simp add: sortBy_def)

lemma addColumn_percent:
  "addColumn (new_TableData columns rows) ''percent'' (percent_compute m) =
     new_TableData (columns @ [''percent''])
       (map (\<lambda>row. row @ [Num (Math_round (js_div (js_mul
               (ToNumber (cell_at row (indexOf columns ''density''))) (Fin 100)) m))]) rows)"
  by (simp add: addColumn_def new_TableData_def percent_compute_def Let_def)

lemma run_registered:
  assumes "a_parsers a (a_inputFormat a) = Some Parser"
    and "a_renderers a (a_outputFormat a) = Some Renderer"
    and "Parser (a_data a) = Inr parser"
  shows "run a =
    (Renderer (a_formatOptions a)
       (getRows (sortBy
          (addColumn
             (new_TableData (po_getColumns parser)
                (po_toDatasetArray parser [cellWithTypes (a_dataSchema a)]))
             ''percent''
             (percent_compute
                (maxBy (new_TableData (po_getColumns parser)
                          (po_toDatasetArray parser [cellWithTypes (a_dataSchema a)]))
                   ''density'')))
          ''percent'' None)),
     Inr ())"
  using assms by (simp add: run_def Let_def)

text \<open>Rows that end in their key, sorted by the column that was appended last.\<close>

lemma set_Array_sort: "set (Array_sort compare xs) = set xs"
  using mset_Array_sort [of compare xs] by (metis set_mset_mset)

lemma sortBy_appended_column:
  assumes new: "name \<notin> set columns"
    and len: "\<forall>row \<in> set rows. length row = length columns"
    and num: "\<forall>row \<in> set rows. f row \<noteq> NaN"
  shows "sorted_wrt (\<lambda>r1 r2. js_le (ToNumber (last r2)) (ToNumber (last r1)))
           (getRows (sortBy (new_TableData (columns @ [name])
                               (map (\<lambda>row. row @ [Num (f row)]) rows))
                      name (Some ''desc'')))"
proof -
  define rows' where "rows' = map (\<lambda>row. row @ [Num (f row)]) rows"
  define t where "t = new_TableData (columns @ [name]) rows'"
  define c where "c = td_indexOf t name"
  define key where "key = (\<lambda>row. ToNumber (cell_at row c))"
  have gr: "getRows t = rows'"
    unfolding t_def by (rule getRows_new)
  have i: "c = int (length columns)"
    unfolding c_def t_def td_indexOf_def td_columns_getColumns getColumns_new
    using new by (rule indexOf_append_new)
  have k: "key r = ToNumber (last r) \<and> key r \<noteq> NaN" if "r \<in> set rows'" for r
  proof -
    from that obtain row where row: "row \<in> set rows" and r: "r = row @ [Num (f row)]"
      unfolding rows'_def by auto
    from len row have l: "length row = length columns" by simp
    have "cell_at r c = Num (f row)"
      unfolding i r l [symmetric] by (rule cell_at_appended)
    moreover have "last r = Num (f row)" unfolding r by simp
    moreover have "f row \<noteq> NaN" using num row by simp
    ultimately show ?thesis unfolding key_def by simp
  qed
  have g: "getRows (sortBy t name (Some ''desc'')) =
      Array_sort (\<lambda>a b. js_sub (key b) (key a)) rows'"
    unfolding key_def c_def gr [symmetric] by (rule getRows_sortBy_desc) simp
  have s: "sorted_wrt (\<lambda>a b. js_le (key b) (key a))
      (Array_sort (\<lambda>a b. js_sub (key b) (key a)) rows')"
    by (rule Array_sort_desc) (use k in blast)
  have "sorted_wrt (\<lambda>r1 r2. js_le (ToNumber (last r2)) (ToNumber (last r1)))
      (Array_sort (\<lambda>a b. js_sub (key b) (key a)) rows')"
  proof (rule sorted_wrt_mono_rel [OF _ s])
    fix r1 r2
    assume "r1 \<in> set (Array_sort (\<lambda>a b. js_sub (key b) (key a)) rows')"
      and "r2 \<in> set (Array_sort (\<lambda>a b. js_sub (key b) (key a)) rows')"
      and le: "js_le (key r2) (key r1)"
    then have "r1 \<in> set rows'" and "r2 \<in> set rows'"
      unfolding set_Array_sort by simp_all
    then have "key r1 = ToNumber (last r1)" and "key r2 = ToNumber (last r2)"
      using k by blast+
    with le show "js_le (ToNumber (last r2)) (ToNumber (last r1))" by simp
  qed
  then have "sorted_wrt (\<lambda>r1 r2. js_le (ToNumber (last r2)) (ToNumber (last r1)))
      (getRows (sortBy t name (Some ''desc'')))"
    unfolding g .
  then show ?thesis
    unfolding t_def rows'_def .
qed

lemma run_spec_result:
  assumes "a_parsers a (a_inputFormat a) = Some Parser"
    and "a_renderers a (a_outputFormat a) = Some Renderer"
    and "Parser (a_data a) = Inr parser"
  shows "run a =
    (Renderer (a_formatOptions a)
       (getRows (spec_result (po_getColumns parser)
                   (po_toDatasetArray parser [cellWithTypes (a_dataSchema a)]))),
     Inr ())"
  unfolding run_registered [OF assms] addColumn_percent sortBy_default_order
    spec_result_def spec_with_percent_def spec_percent_def Let_def ..

lemma spec_result_sorted:
  assumes "''percent'' \<notin> set columns"
    and "\<forall>row \<in> set rows. length row = length columns \<and>
           spec_percent (maxBy (new_TableData columns rows) ''density'')
             (cell_at row (indexOf columns ''density'')) \<noteq> NaN"
  shows "sorted_wrt (\<lambda>r1 r2. js_le (ToNumber (last r2)) (ToNumber (last r1)))
           (getRows (spec_result columns rows))"
  unfolding spec_result_def spec_with_percent_def Let_def
  by (rule sortBy_appended_column) (use assms in blast)+



subsection \<open>The store\<close>

lemma extends_refl: "extends s s"
  by (simp add: extends_def)

lemma extends_trans: "extends s s1 \<Longrightarrow> extends s1 s2 \<Longrightarrow> extends s s2"
  by (auto simp: extends_def)

lemma extends_next: "extends s s' \<Longrightarrow> next_addr s \<le> next_addr s'"
  by (simp add: extends_def)

lemma extends_read_cols: "extends s s' \<Longrightarrow> a < next_addr s \<Longrightarrow> read_cols s' a = read_cols s a"
  by (simp add: extends_def read_cols_def)

lemma extends_read_cells: "extends s s' \<Longrightarrow> a < next_addr s \<Longrightarrow> read_cells s' a = read_cells s a"
  by (simp add: extends_def read_cells_def)

lemma extends_read_refs: "extends s s' \<Longrightarrow> a < next_addr s \<Longrightarrow> read_refs s' a = read_refs s a"
  by (simp add: extends_def read_refs_def)

lemma alloc_cols_props:
  assumes "alloc_cols s xs = (a, s')"
  shows "a = next_addr s" and "next_addr s' = Suc (next_addr s)" and "extends s s'"
    and "read_cols s' a = xs"
  using assms by (auto simp: alloc_cols_def extends_def read_cols_def)

lemma alloc_cells_props:
  assumes "alloc_cells s xs = (a, s')"
  shows "a = next_addr s" and "next_addr s' = Suc (next_addr s)" and "extends s s'"
    and "read_cells s' a = xs"
  using assms by (auto simp: alloc_cells_def extends_def read_cells_def)

lemma alloc_refs_props:
  assumes "alloc_refs s xs = (a, s')"
  shows "a = next_addr s" and "next_addr s' = Suc (next_addr s)" and "extends s s'"
    and "read_refs s' a = xs"
  using assms by (auto simp: alloc_refs_def extends_def read_refs_def)

text \<open>
  Mapping over rows with a callback whose result does not change when the store is
  extended: the new rows are new arrays, holding the results computed in the store at
  the start.
\<close>

lemma map_alloc_props:
  assumes "\<And>s'. extends s s' \<Longrightarrow> \<forall>r \<in> set rs. g s' r = g s r"
    and "map_alloc g s rs = (as, s2)"
  shows "extends s s2 \<and> length as = length rs \<and>
         (\<forall>a \<in> set as. next_addr s \<le> a \<and> a < next_addr s2) \<and>
         map (read_cells s2) as = map (g s) rs"
  using assms
proof (induction rs arbitrary: s as s2)
  case Nil
  then show ?case by (simp add: extends_refl)
next
  case (Cons r rs)
  obtain a s1 where a: "alloc_cells s (g s r) = (a, s1)" by (cases "alloc_cells s (g s r)")
  obtain bs s3 where m: "map_alloc g s1 rs = (bs, s3)" by (cases "map_alloc g s1 rs")
  from Cons.prems(2) a m have as: "as = a # bs" and s2: "s2 = s3" by simp_all
  note al = alloc_cells_props [OF a]
  have st: "\<forall>x \<in> set rs. g s' x = g s1 x" if "extends s1 s'" for s'
  proof -
    have "extends s s'" using al(3) that by (rule extends_trans)
    from Cons.prems(1) [OF this] Cons.prems(1) [OF al(3)] show ?thesis by simp
  qed
  from Cons.IH [OF st m]
  have e: "extends s1 s3" and l: "length bs = length rs"
    and f: "\<forall>x \<in> set bs. next_addr s1 \<le> x \<and> x < next_addr s3"
    and v: "map (read_cells s3) bs = map (g s1) rs"
    by simp_all
  have e2: "extends s s3" using al(3) e by (rule extends_trans)
  have lt: "a < next_addr s1" using al(1,2) by simp
  have "read_cells s3 a = g s r"
    using extends_read_cells [OF e lt] al(4) by simp
  moreover have "map (g s1) rs = map (g s) rs"
    using Cons.prems(1) [OF al(3)] by simp
  moreover have "next_addr s \<le> a \<and> a < next_addr s3"
    using al(1) lt extends_next [OF e] by simp
  moreover have "\<forall>x \<in> set bs. next_addr s \<le> x \<and> x < next_addr s3"
    using f al(2) by auto
  ultimately show ?case
    using e2 l v unfolding as s2 by simp
qed

lemma map_rows_props:
  assumes "\<And>s'. extends s s' \<Longrightarrow> \<forall>r \<in> set (read_refs s rows). g s' r = g s r"
    and "map_rows g s rows = (out, s')"
  shows "extends s s'" and "next_addr s \<le> out" and "out < next_addr s'"
    and "\<forall>a \<in> set (read_refs s' out). next_addr s \<le> a \<and> a < next_addr s'"
    and "map (read_cells s') (read_refs s' out) = map (g s) (read_refs s rows)"
proof -
  obtain as s1 where m: "map_alloc g s (read_refs s rows) = (as, s1)"
    by (cases "map_alloc g s (read_refs s rows)")
  with assms(2) have a: "alloc_refs s1 as = (out, s')" by (simp add: map_rows_def)
  from map_alloc_props [OF assms(1) m]
  have e: "extends s s1"
    and f: "\<forall>a \<in> set as. next_addr s \<le> a \<and> a < next_addr s1"
    and v: "map (read_cells s1) as = map (g s) (read_refs s rows)"
    by simp_all
  note al = alloc_refs_props [OF a]
  show "extends s s'" using e al(3) by (rule extends_trans)
  show "next_addr s \<le> out" using al(1) extends_next [OF e] by simp
  show "out < next_addr s'" using al(1,2) by simp
  show "\<forall>a \<in> set (read_refs s' out). next_addr s \<le> a \<and> a < next_addr s'"
    using f al(2,4) by auto
  have "map (read_cells s') as = map (read_cells s1) as"
    using f extends_read_cells [OF al(3)] by simp
  then show "map (read_cells s') (read_refs s' out) = map (g s) (read_refs s rows)"
    using v al(4) by simp
qed

lemma read_cells_stable:
  assumes "\<forall>r \<in> set rs. r < next_addr s" and "extends s s'"
  shows "\<forall>r \<in> set rs. read_cells s' r = read_cells s r"
  using assms extends_read_cells by blast

lemma map_rows_copy_props:
  assumes "\<forall>r \<in> set (read_refs s rows). r < next_addr s"
    and "map_rows (\<lambda>s row. read_cells s row) s rows = (out, s')"
  shows "extends s s'" and "next_addr s \<le> out" and "out < next_addr s'"
    and "\<forall>a \<in> set (read_refs s' out). next_addr s \<le> a \<and> a < next_addr s'"
    and "map (read_cells s') (read_refs s' out) = map (read_cells s) (read_refs s rows)"
  using map_rows_props [where g = "\<lambda>s row. read_cells s row", OF read_cells_stable [OF assms(1)] assms(2)]
  by blast+

text \<open>The constructor gives a table of new arrays with the values it was given.\<close>

lemma st_new_TableData_props:
  assumes c: "columns < next_addr s"
    and r: "rows < next_addr s"
    and rs: "\<forall>x \<in> set (read_refs s rows). x < next_addr s"
    and n: "st_new_TableData s columns rows = (t', s')"
  shows "extends s s'" and "valid_table s' t'"
    and "\<forall>a \<in> table_addrs s' t'. next_addr s \<le> a"
    and "table_of s' t' =
           \<lparr>td_columns = read_cols s columns, td_rows = map (read_cells s) (read_refs s rows)\<rparr>"
proof -
  obtain a s1 where a: "alloc_cols s (read_cols s columns) = (a, s1)"
    by (cases "alloc_cols s (read_cols s columns)")
  obtain out s2 where m: "map_rows (\<lambda>s row. read_cells s row) s1 rows = (out, s2)"
    by (cases "map_rows (\<lambda>s row. read_cells s row) s1 rows")
  from n a m have t': "t' = \<lparr>o_columns = a, o_rows = out\<rparr>" and s': "s' = s2"
    by (simp_all add: st_new_TableData_def)
  note al = alloc_cols_props [OF a]
  have r1: "read_refs s1 rows = read_refs s rows"
    using extends_read_refs [OF al(3) r] .
  have rs1: "\<forall>x \<in> set (read_refs s1 rows). x < next_addr s1"
    using rs al(2) unfolding r1 by auto
  note mp = map_rows_copy_props [OF rs1 m]
  have c1: "map (read_cells s1) (read_refs s rows) = map (read_cells s) (read_refs s rows)"
    using rs extends_read_cells [OF al(3)] by simp
  show "extends s s'" unfolding s' using al(3) mp(1) by (rule extends_trans)
  have alt: "a < next_addr s1" using al(1,2) by simp
  show "valid_table s' t'"
    unfolding s' t' valid_table_def list_all_iff
    using alt extends_next [OF mp(1)] mp(3,4) by auto
  show "\<forall>x \<in> table_addrs s' t'. next_addr s \<le> x"
    unfolding s' t' table_addrs_def
    using al(1,2) mp(2,4) by auto
  have "read_cols s2 a = read_cols s columns"
    using extends_read_cols [OF mp(1) alt] al(4) by simp
  then show "table_of s' t' =
      \<lparr>td_columns = read_cols s columns, td_rows = map (read_cells s) (read_refs s rows)\<rparr>"
    unfolding s' t' table_of_def using mp(5) r1 c1 by simp
qed

lemma valid_tableD:
  assumes "valid_table s t"
  shows "o_columns t < next_addr s" and "o_rows t < next_addr s"
    and "\<forall>r \<in> set (read_refs s (o_rows t)). r < next_addr s"
  using assms by (simp_all add: valid_table_def list_all_iff)

text \<open>A store that extends another has the tables of the other unchanged.\<close>

lemma extends_table_of:
  assumes "extends s s'" and "valid_table s t"
  shows "table_of s' t = table_of s t" and "table_addrs s' t = table_addrs s t"
    and "valid_table s' t"
proof -
  note v = valid_tableD [OF assms(2)]
  have r: "read_refs s' (o_rows t) = read_refs s (o_rows t)"
    using extends_read_refs [OF assms(1) v(2)] .
  have c: "map (read_cells s') (read_refs s (o_rows t)) = map (read_cells s) (read_refs s (o_rows t))"
    using v(3) extends_read_cells [OF assms(1)] by simp
  show "table_of s' t = table_of s t"
    unfolding table_of_def r c using extends_read_cols [OF assms(1) v(1)] by simp
  show "table_addrs s' t = table_addrs s t"
    unfolding table_addrs_def r ..
  show "valid_table s' t"
    unfolding valid_table_def list_all_iff r
    using v extends_next [OF assms(1)] by auto
qed

lemma table_addrs_below:
  assumes "valid_table s t"
  shows "\<forall>a \<in> table_addrs s t. a < next_addr s"
  using valid_tableD [OF assms] by (auto simp: table_addrs_def)

text \<open>What the getters return is the value of the table.\<close>

lemma st_getColumns_value: "columns_returned (st_getColumns s t) = getColumns (table_of s t)"
  by (simp add: columns_returned_def st_getColumns_def alloc_cols_def read_cols_def
        getColumns_def table_of_def)

lemma st_getRows_value:
  assumes "valid_table s t"
  shows "rows_returned (st_getRows s t) = getRows (table_of s t)"
proof -
  obtain out s' where m: "map_rows (\<lambda>s row. read_cells s row) s (o_rows t) = (out, s')"
    by (cases "map_rows (\<lambda>s row. read_cells s row) s (o_rows t)")
  from map_rows_copy_props(5) [OF valid_tableD(3) [OF assms] m] m
  show ?thesis
    by (simp add: rows_returned_def st_getRows_def getRows_def table_of_def)
qed

text \<open>
  The operations on the store compute the tables of the section on values, in new
  arrays, and extend the store.
\<close>

lemma st_addColumn_props:
  assumes v: "valid_table s t"
    and a: "st_addColumn s t name compute = (t', s')"
  shows "extends s s'" and "valid_table s' t'"
    and "\<forall>x \<in> table_addrs s' t'. next_addr s \<le> x"
    and "table_of s' t' = addColumn (table_of s t) name compute"
proof -
  note vt = valid_tableD [OF v]
  let ?g = "\<lambda>s row. read_cells s row @
       [compute (read_cells s row) (read_cols s (o_columns t))
          (map (read_cells s) (read_refs s (o_rows t)))]"
  obtain c s1 where c: "alloc_cols s (read_cols s (o_columns t) @ [name]) = (c, s1)"
    by (cases "alloc_cols s (read_cols s (o_columns t) @ [name])")
  obtain out s2 where m: "map_rows ?g s1 (o_rows t) = (out, s2)"
    by (cases "map_rows ?g s1 (o_rows t)")
  from a c m have n: "st_new_TableData s2 c out = (t', s')"
    by (simp add: st_addColumn_def)
  note al = alloc_cols_props [OF c]
  have g_eq: "?g x r = ?g s r" if "extends s x" and "r \<in> set (read_refs s (o_rows t))" for x r
  proof -
    have f1: "read_cells x r = read_cells s r"
      using extends_read_cells [OF that(1)] vt(3) that(2) by simp
    have f2: "read_cols x (o_columns t) = read_cols s (o_columns t)"
      using extends_read_cols [OF that(1) vt(1)] .
    have f3: "read_refs x (o_rows t) = read_refs s (o_rows t)"
      using extends_read_refs [OF that(1) vt(2)] .
    have f4: "map (read_cells x) (read_refs s (o_rows t))
        = map (read_cells s) (read_refs s (o_rows t))"
      using extends_read_cells [OF that(1)] vt(3) by simp
    show ?thesis unfolding f1 f2 f3 f4 ..
  qed
  have r1: "read_refs s1 (o_rows t) = read_refs s (o_rows t)"
    using extends_read_refs [OF al(3) vt(2)] .
  have st: "\<forall>r \<in> set (read_refs s1 (o_rows t)). ?g x r = ?g s1 r" if "extends s1 x" for x
  proof
    fix r assume "r \<in> set (read_refs s1 (o_rows t))"
    then have r: "r \<in> set (read_refs s (o_rows t))" unfolding r1 .
    have "extends s x" using al(3) that by (rule extends_trans)
    then have "?g x r = ?g s r" using r by (rule g_eq)
    also have "?g s r = ?g s1 r" using al(3) r by (rule g_eq [symmetric])
    finally show "?g x r = ?g s1 r" .
  qed
  note mp = map_rows_props [where g = ?g, OF st m]
  have "map (?g s1) (read_refs s (o_rows t)) = map (?g s) (read_refs s (o_rows t))"
    by (rule map_cong [OF refl]) (rule g_eq [OF al(3)])
  then have v5: "map (read_cells s2) (read_refs s2 out) = map (?g s) (read_refs s (o_rows t))"
    using mp(5) unfolding r1 by (rule trans [rotated])
  have c2: "c < next_addr s2" using al(1,2) extends_next [OF mp(1)] by simp
  have rs2: "\<forall>x \<in> set (read_refs s2 out). x < next_addr s2" using mp(4) by simp
  note np = st_new_TableData_props [OF c2 mp(3) rs2 n]
  have e2: "extends s s2" using al(3) mp(1) by (rule extends_trans)
  show "extends s s'" using e2 np(1) by (rule extends_trans)
  show "valid_table s' t'" by (rule np(2))
  show "\<forall>x \<in> table_addrs s' t'. next_addr s \<le> x"
    using np(3) extends_next [OF e2] by auto
  have cc: "read_cols s2 c = read_cols s (o_columns t) @ [name]"
    using extends_read_cols [OF mp(1), of c] al(1,2,4) by simp
  have lhs: "table_of s' t' =
      \<lparr>td_columns = read_cols s (o_columns t) @ [name],
       td_rows = map (?g s) (read_refs s (o_rows t))\<rparr>"
    using np(4) unfolding v5 cc .
  have rhs: "addColumn (table_of s t) name compute =
      \<lparr>td_columns = read_cols s (o_columns t) @ [name],
       td_rows = map (?g s) (read_refs s (o_rows t))\<rparr>"
    by (simp add: addColumn_def new_TableData_def table_of_def Let_def o_def)
  show "table_of s' t' = addColumn (table_of s t) name compute"
    unfolding lhs rhs ..
qed

lemma map_sort_insert:
  "map f (sort_insert (\<lambda>a b. compare (f a) (f b)) x ys) = sort_insert compare (f x) (map f ys)"
  by (induction ys) simp_all

lemma map_Array_sort:
  "map f (Array_sort (\<lambda>a b. compare (f a) (f b)) xs) = Array_sort compare (map f xs)"
  by (induction xs) (simp_all add: Array_sort_def map_sort_insert)

lemma st_sortBy_props:
  assumes v: "valid_table s t"
    and a: "st_sortBy s t column order_arg = (t', s')"
  shows "extends s s'" and "valid_table s' t'"
    and "\<forall>x \<in> table_addrs s' t'. next_addr s \<le> x"
    and "table_of s' t' = sortBy (table_of s t) column order_arg"
proof -
  note vt = valid_tableD [OF v]
  define order where "order = (case order_arg of None \<Rightarrow> ''desc'' | Some x \<Rightarrow> x)"
  define colIndex where "colIndex = indexOf (read_cols s (o_columns t)) column"
  define cmp :: "jsval list \<Rightarrow> jsval list \<Rightarrow> jsnum" where "cmp = (if order = ''desc''
      then (\<lambda>a b. js_sub (ToNumber (cell_at b colIndex)) (ToNumber (cell_at a colIndex)))
      else (\<lambda>a b. js_sub (ToNumber (cell_at a colIndex)) (ToNumber (cell_at b colIndex))))"
  define compare where "compare = (\<lambda>a b. cmp (read_cells s a) (read_cells s b))"
  have compare_eq: "compare = (if order = ''desc''
      then (\<lambda>a b. js_sub (ToNumber (cell_at (read_cells s b) colIndex))
                        (ToNumber (cell_at (read_cells s a) colIndex)))
      else (\<lambda>a b. js_sub (ToNumber (cell_at (read_cells s a) colIndex))
                        (ToNumber (cell_at (read_cells s b) colIndex))))"
    by (simp add: compare_def cmp_def)
  obtain rows s1 where r: "alloc_refs s (read_refs s (o_rows t)) = (rows, s1)"
    by (cases "alloc_refs s (read_refs s (o_rows t))")
  define s2 where
    "s2 = s1\<lparr>ref_arrays := (ref_arrays s1)(rows \<mapsto> Array_sort compare (read_refs s1 rows))\<rparr>"
  from a r have n: "st_new_TableData s2 (o_columns t) rows = (t', s')"
    unfolding st_sortBy_def Let_def order_def [symmetric] colIndex_def [symmetric]
      compare_eq [symmetric]
    by (simp add: s2_def)
  note al = alloc_refs_props [OF r]
  have e2: "extends s s2"
    using al(1,3) by (simp add: extends_def s2_def)
  have n2: "next_addr s2 = Suc (next_addr s)"
    using al(2) by (simp add: s2_def)
  have rr: "read_refs s2 rows = Array_sort compare (read_refs s (o_rows t))"
    using al(4) by (simp add: s2_def read_refs_def)
  have c2: "o_columns t < next_addr s2" using vt(1) n2 by simp
  have r2: "rows < next_addr s2" using al(1) n2 by simp
  have rs2: "\<forall>x \<in> set (read_refs s2 rows). x < next_addr s2"
    unfolding rr set_Array_sort using vt(3) n2 by auto
  note np = st_new_TableData_props [OF c2 r2 rs2 n]
  show "extends s s'" using e2 np(1) by (rule extends_trans)
  show "valid_table s' t'" by (rule np(2))
  show "\<forall>x \<in> table_addrs s' t'. next_addr s \<le> x"
    using np(3) extends_next [OF e2] by auto
  have "map (read_cells s2) (Array_sort compare (read_refs s (o_rows t)))
      = map (read_cells s) (Array_sort compare (read_refs s (o_rows t)))"
    using vt(3) extends_read_cells [OF e2] by (simp add: set_Array_sort)
  also have "\<dots> = Array_sort cmp (map (read_cells s) (read_refs s (o_rows t)))"
    unfolding compare_def by (rule map_Array_sort)
  finally have rows_eq: "map (read_cells s2) (read_refs s2 rows)
      = Array_sort cmp (map (read_cells s) (read_refs s (o_rows t)))"
    unfolding rr .
  have cols_eq: "read_cols s2 (o_columns t) = read_cols s (o_columns t)"
    using extends_read_cols [OF e2 vt(1)] .
  show "table_of s' t' = sortBy (table_of s t) column order_arg"
    unfolding np(4) rows_eq cols_eq
    unfolding sortBy_def Let_def order_def [symmetric] td_indexOf_def
    by (simp add: table_of_def new_TableData_def cmp_def colIndex_def)
qed

subsection \<open>Immutability\<close>



end
